(* ===== verification/Prelude.thy ===== *)
theory Prelude
  imports Complex_Main "HOL-Library.Word"
begin

text \<open>
  Shared vocabulary of the tic-tac-toe development: the small part of the JavaScript
  value model that \<open>src/src/Game.js\<close> relies on (array reads that yield
  \<open>undefined\<close> out of range, the bitwise \<open>&\<close> the win check uses on booleans, a
  \<open>for\<close> loop with an early \<open>return\<close>), and the generic list facts the component
  theories share: counting after an update and invariants carried along a list whose
  neighbours are related.
\<close>

unbundle bit_operations_syntax

named_theorems js_simps "evaluation rules of the JavaScript value model"

subsection \<open>Array reads\<close>

text \<open>
  \<open>xs[i]\<close> on a JavaScript array: the element when \<open>0 \<le> i < xs.length\<close>, and
  \<open>undefined\<close> (here \<open>None\<close>) at every other index, negative ones included.
\<close>

definition js_get :: "'a list \<Rightarrow> int \<Rightarrow> 'a option" where
  "js_get xs i = (if 0 \<le> i \<and> i < int (length xs) then Some (xs ! nat i) else None)"

subsection \<open>Bitwise and on booleans\<close>

text \<open>
  \<open>a & b\<close> converts its boolean operands to the numbers 0 and 1 and combines them
  bitwise; an \<open>if\<close> then tests the number for being non-zero.
\<close>

definition js_num :: "bool \<Rightarrow> int" where
  "js_num b = (if b then 1 else 0)"

subsection \<open>A loop with an early return\<close>

text \<open>
  \<open>for (x of xs) { if (hit(x)) return r(x) }\<close>: the first hit, or \<open>None\<close> when the
  loop runs to its end.
\<close>

primrec first_hit :: "('a \<Rightarrow> 'b option) \<Rightarrow> 'a list \<Rightarrow> 'b option" where
  "first_hit f [] = None"
| "first_hit f (x # xs) = (case f x of None \<Rightarrow> first_hit f xs | Some r \<Rightarrow> Some r)"

subsection \<open>Lemmas on array reads\<close>

lemma js_get_Some_iff [js_simps]:
  "js_get xs i = Some v \<longleftrightarrow> 0 \<le> i \<and> i < int (length xs) \<and> xs ! nat i = v"
  by (auto simp: js_get_def)

lemma js_get_None_iff [js_simps]:
  "js_get xs i = None \<longleftrightarrow> i < 0 \<or> int (length xs) \<le> i"
  by (auto simp: js_get_def)

lemma js_get_nat [simp]: "k < length xs \<Longrightarrow> js_get xs (int k) = Some (xs ! k)"
  by (simp add: js_get_def)

lemma js_get_append_last [simp]: "js_get (xs @ [x]) (int (length xs)) = Some x"
  by (simp add: js_get_def)

lemma js_get_upto: "map (js_get xs) [0..int (length xs) - 1] = map Some xs"
  by (rule nth_equalityI) (simp_all add: js_get_def)

subsection \<open>Lemmas on the bitwise conjunction\<close>

lemma js_num_and [simp]: "js_num a AND js_num b = js_num (a \<and> b)"
  by (simp add: js_num_def)

lemma js_num_nonzero [simp]: "js_num a \<noteq> 0 \<longleftrightarrow> a"
  by (simp add: js_num_def)

subsection \<open>Lemmas on the early-return loop\<close>

lemma first_hit_None_iff: "first_hit f xs = None \<longleftrightarrow> (\<forall>x \<in> set xs. f x = None)"
  by (induction xs) (auto split: option.splits)

lemma first_hit_Some:
  "first_hit f xs = Some r \<Longrightarrow> \<exists>x \<in> set xs. f x = Some r"
  by (induction xs) (auto split: option.splits)

lemma first_hit_append:
  "first_hit f (xs @ ys) = (case first_hit f xs of None \<Rightarrow> first_hit f ys | Some r \<Rightarrow> Some r)"
  by (induction xs) (auto split: option.splits)

lemma first_hit_map: "first_hit f (map g xs) = first_hit (f \<circ> g) xs"
  by (induction xs) (simp_all split: option.split)

lemma case_first_hit_append:
  "(case first_hit f (xs @ ys) of Some r \<Rightarrow> r | None \<Rightarrow> d) =
   (case first_hit f xs of Some r \<Rightarrow> r | None \<Rightarrow> (case first_hit f ys of Some r \<Rightarrow> r | None \<Rightarrow> d))"
  by (simp add: first_hit_append split: option.split)

subsection \<open>Counting after an update\<close>

lemma count_list_update:
  "k < length xs \<Longrightarrow>
   count_list (xs[k := y]) x =
     count_list xs x - (if xs ! k = x then 1 else 0) + (if y = x then 1 else 0)"
proof (induction xs arbitrary: k)
  case Nil
  then show ?case by simp
next
  case (Cons a xs)
  then show ?case
  proof (cases k)
    case 0
    then show ?thesis by simp
  next
    case (Suc j)
    with Cons.prems have "j < length xs" by simp
    moreover have "xs ! j = x \<Longrightarrow> 0 < count_list xs x"
      using \<open>j < length xs\<close> by (metis count_list_0_iff gr0I nth_mem)
    ultimately show ?thesis using Cons.IH Suc by auto
  qed
qed

lemma nth_update_keeps: "xs[k := v] ! j = w \<Longrightarrow> v \<noteq> w \<Longrightarrow> xs ! j = w"
  by (cases "k < length xs") (auto simp: nth_list_update list_update_beyond split: if_splits)

lemma count_list_fill_empty:
  "k < length xs \<Longrightarrow> xs ! k = None \<Longrightarrow>
   count_list (xs[k := Some m]) (Some m') = count_list xs (Some m') + (if m = m' then 1 else 0)"
  by (simp add: count_list_update)

subsection \<open>Invariants along related neighbours\<close>

text \<open>
  If the first element of a list has a property and each element's relation to its
  successor carries the property over, every element has it.
\<close>

lemma successively_carries:
  assumes "successively R (a # xs)" and "Q a" and step: "\<And>x y. R x y \<Longrightarrow> Q x \<Longrightarrow> Q y"
  shows "\<forall>x \<in> set (a # xs). Q x"
  using assms(1,2)
proof (induction xs arbitrary: a)
  case Nil
  then show ?case by simp
next
  case (Cons b xs)
  then have "R a b" and tl: "successively R (b # xs)" by simp_all
  with Cons.prems(2) step have "Q b" by blast
  with Cons.IH [OF tl] Cons.prems(2) show ?case by simp
qed

lemma successively_nth:
  "successively R xs \<Longrightarrow> Suc k < length xs \<Longrightarrow> R (xs ! k) (xs ! Suc k)"
proof (induction xs arbitrary: k)
  case Nil
  then show ?case by simp
next
  case (Cons a xs)
  show ?case
  proof (cases k)
    case 0
    with Cons.prems show ?thesis by (cases xs) auto
  next
    case (Suc j)
    with Cons.prems have "successively R xs" and "Suc j < length xs"
      by (auto simp: successively_Cons)
    with Cons.IH Suc show ?thesis by simp
  qed
qed

lemma successively_snoc:
  "successively R (xs @ [y]) \<longleftrightarrow> successively R xs \<and> (xs = [] \<or> R (last xs) y)"
  by (auto simp: successively_append_iff)

subsection \<open>Indices as integers\<close>

lemma nat_int_minus_one [simp]: "nat (int n - 1) = n - 1"
  by simp

subsection \<open>Small bounded quantifiers\<close>

lemma ex_less_3_nat: "(\<exists>i < (3::nat). P i) \<longleftrightarrow> P 0 \<or> P 1 \<or> P 2"
  by (auto simp: numeral_3_eq_3 numeral_2_eq_2 less_Suc_eq)

lemma all_less_3_nat: "(\<forall>i < (3::nat). P i) \<longleftrightarrow> P 0 \<and> P 1 \<and> P 2"
  by (auto simp: numeral_3_eq_3 numeral_2_eq_2 less_Suc_eq)

end
