(* ===== verification/Board.thy ===== *)
theory Board
  imports Prelude
begin

text \<open>
  The board engine of \<open>src/src/Game.js\<close>: the pure functions the \<open>Board\<close> component
  calls on every render. \<open>calculateNextValue\<close> (lines 110--125) decides whose turn it is
  from the mark counts, \<open>generateRandomInitial\<close> (127--129) draws the starting mark,
  \<open>calculateWinner\<close> (131--166) looks for three equal marks in a row, column or
  diagonal, and \<open>calculateStatus\<close> (168--174) builds the status line. A board is the
  JavaScript array of nine squares, each \<open>null\<close> or the string \<open>'X'\<close> or \<open>'O'\<close>;
  a read \<open>squares[k]\<close> yields one of three JavaScript values, \<open>undefined\<close>,
  \<open>null\<close> or a mark, and the engine compares such values with \<open>===\<close>.
  The lemmas show that the index arithmetic of the loops visits exactly the eight lines of
  a 3\<open>\<times>\<close>3 board in the code's order, that a reported winner really owns a line, that
  no line is missed, and that the turn rule is the count rule.
\<close>

unbundle bit_operations_syntax

subsection \<open>Data\<close>

datatype mark = MarkX | MarkO

type_synonym square = "mark option"   \<comment> \<open>\<open>null\<close>, \<open>'X'\<close> or \<open>'O'\<close>\<close>
type_synonym board = "square list"

text \<open>The value of \<open>squares[k]\<close>: \<open>undefined\<close> out of range, else the square.\<close>

datatype jsval = Undefined | Null | Str mark

type_synonym coord = "int \<times> int"
type_synonym winline = "coord \<times> coord"
type_synonym winner_result = "jsval \<times> winline option"

definition rows :: int where
  "rows = 3"

definition cols :: int where
  "cols = 3"

text \<open>\<open>Array(9).fill(null)\<close>.\<close>

definition emptyBoard :: board where
  "emptyBoard = replicate 9 None"

definition sq :: "board \<Rightarrow> int \<Rightarrow> jsval" where
  "sq squares k =
     (case js_get squares k of None \<Rightarrow> Undefined | Some None \<Rightarrow> Null | Some (Some m) \<Rightarrow> Str m)"

subsection \<open>\<open>calculateNextValue\<close>\<close>

text \<open>One pass of the inner loop body: \<open>count\<close> is the pair \<open>[X, O]\<close>.\<close>

definition count_square :: "board \<Rightarrow> int \<Rightarrow> int \<times> int \<Rightarrow> int \<times> int" where
  "count_square squares k count =
     (case sq squares k of
        Str MarkX \<Rightarrow> (fst count + 1, snd count)
      | Str MarkO \<Rightarrow> (fst count, snd count + 1)
      | _ \<Rightarrow> count)"

definition calculateNextValue :: "board \<Rightarrow> mark \<Rightarrow> mark" where
  "calculateNextValue squares initial =
     (let count = fold (\<lambda>i. fold (\<lambda>j. count_square squares (i * rows + j)) [0..cols - 1])
                    [0..rows - 1] (0, 0)
      in if fst count = snd count then initial
         else if fst count < snd count then MarkX else MarkO)"

subsection \<open>\<open>generateRandomInitial\<close>\<close>

text \<open>\<open>['X', 'O'][Math.floor(Math.random() * 2)]\<close>, the random number given.\<close>

definition generateRandomInitial :: "real \<Rightarrow> mark option" where
  "generateRandomInitial r = js_get [MarkX, MarkO] \<lfloor>r * 2\<rfloor>"

subsection \<open>\<open>calculateWinner\<close>\<close>

text \<open>
  One iteration of the horizontal loop (lines 133--139) and of the vertical loop
  (142--148): the three \<open>===\<close> tests are combined by the bitwise \<open>&\<close>.
\<close>

definition horizontal_hit :: "board \<Rightarrow> int \<Rightarrow> winner_result option" where
  "horizontal_hit squares i =
     (if js_num (sq squares (i * rows + (cols - 1)) \<noteq> Null)
         AND js_num (sq squares (i * rows + (cols - 1)) = sq squares (i * rows + (cols - 2)))
         AND js_num (sq squares (i * rows + (cols - 1)) = sq squares (i * rows + (cols - 3))) \<noteq> 0
      then Some (sq squares (i * rows + (cols - 1)), Some ((i, cols - 3), (i, cols - 1)))
      else None)"

definition vertical_hit :: "board \<Rightarrow> int \<Rightarrow> winner_result option" where
  "vertical_hit squares j =
     (if js_num (sq squares ((rows - 1) * rows + j) \<noteq> Null)
         AND js_num (sq squares ((rows - 1) * rows + j) = sq squares ((rows - 2) * rows + j))
         AND js_num (sq squares ((rows - 1) * rows + j) = sq squares ((rows - 3) * rows + j)) \<noteq> 0
      then Some (sq squares ((rows - 1) * rows + j), Some ((rows - 3, j), (rows - 1, j)))
      else None)"

text \<open>
  Lines 150--163: the centre square (\<open>/\<close> is exact on both branches, so \<open>div\<close>), then
  the two diagonals through it.
\<close>

definition diagonal_hit :: "board \<Rightarrow> winner_result option" where
  "diagonal_hit squares =
     (let center = (if (rows * cols) mod 2 = 1 then sq squares ((rows * cols + 1) div 2 - 1)
                    else sq squares ((rows * cols) div 2 - 1))
      in if center \<noteq> Null then
           (if js_num (center = sq squares ((rows - 3) * rows + (cols - 3)))
               AND js_num (center = sq squares ((rows - 1) * rows + (cols - 1))) \<noteq> 0
            then Some (center, Some ((rows - 3, cols - 3), (rows - 1, cols - 1)))
            else if js_num (center = sq squares ((rows - 3) * rows + (cols - 1)))
               AND js_num (center = sq squares ((rows - 1) * rows + (cols - 3))) \<noteq> 0
            then Some (center, Some ((rows - 3, cols - 1), (rows - 1, cols - 3)))
            else None)
         else None)"

definition calculateWinner :: "board \<Rightarrow> winner_result" where
  "calculateWinner squares =
     (case first_hit (horizontal_hit squares) [0..rows - 1] of Some r \<Rightarrow> r | None \<Rightarrow>
      case first_hit (vertical_hit squares) [0..cols - 1] of Some r \<Rightarrow> r | None \<Rightarrow>
      case diagonal_hit squares of Some r \<Rightarrow> r | None \<Rightarrow> (Null, None))"

subsection \<open>\<open>calculateStatus\<close>\<close>

definition mark_str :: "mark \<Rightarrow> string" where
  "mark_str m = (case m of MarkX \<Rightarrow> ''X'' | MarkO \<Rightarrow> ''O'')"

text \<open>Truthiness and template conversion of a square value.\<close>

definition js_truthy :: "jsval \<Rightarrow> bool" where
  "js_truthy v = (case v of Str _ \<Rightarrow> True | _ \<Rightarrow> False)"

definition js_str :: "jsval \<Rightarrow> string" where
  "js_str v = (case v of Undefined \<Rightarrow> ''undefined'' | Null \<Rightarrow> ''null'' | Str m \<Rightarrow> mark_str m)"

definition calculateStatus :: "jsval \<Rightarrow> board \<Rightarrow> jsval \<Rightarrow> string" where
  "calculateStatus winner squares nextValue =
     (if js_truthy winner then ''Winner: '' @ js_str winner
      else if list_all (\<lambda>v. v \<noteq> None) squares then ''Scratch: Cat's game''
      else ''Next player: '' @ js_str nextValue)"

subsection \<open>Reference specifications\<close>

text \<open>
  The eight lines of a 3\<open>\<times>\<close>3 board, each with the cell the code tests first and the
  two end points it reports, in the order the code tries them: rows, columns, the
  \<open>\\\<close> diagonal, the \<open>/\<close> diagonal.
\<close>

definition win_lines :: "((int \<times> int \<times> int) \<times> winline) list" where
  "win_lines =
     [((2, 1, 0), ((0, 0), (0, 2))), ((5, 4, 3), ((1, 0), (1, 2))), ((8, 7, 6), ((2, 0), (2, 2))),
      ((6, 3, 0), ((0, 0), (2, 0))), ((7, 4, 1), ((0, 1), (2, 1))), ((8, 5, 2), ((0, 2), (2, 2))),
      ((4, 0, 8), ((0, 0), (2, 2))), ((4, 2, 6), ((0, 2), (2, 0)))]"

definition line_hit :: "board \<Rightarrow> (int \<times> int \<times> int) \<times> winline \<Rightarrow> winner_result option" where
  "line_hit b t =
     (case t of ((p, q, r), l) \<Rightarrow>
        if sq b p \<noteq> Null \<and> sq b p = sq b q \<and> sq b p = sq b r then Some (sq b p, Some l) else None)"

definition winner_ref :: "board \<Rightarrow> winner_result" where
  "winner_ref b = (case first_hit (line_hit b) win_lines of Some r \<Rightarrow> r | None \<Rightarrow> (Null, None))"

text \<open>Three in a row, stated on coordinates only.\<close>

definition cell :: "board \<Rightarrow> nat \<Rightarrow> nat \<Rightarrow> square" where
  "cell b r c = b ! (3 * r + c)"

definition three_in_a_row :: "board \<Rightarrow> mark \<Rightarrow> bool" where
  "three_in_a_row b m \<longleftrightarrow>
     (\<exists>r < 3. \<forall>c < 3. cell b r c = Some m) \<or> (\<exists>c < 3. \<forall>r < 3. cell b r c = Some m)
     \<or> (\<forall>i < 3. cell b i i = Some m) \<or> (\<forall>i < 3. cell b i (2 - i) = Some m)"

text \<open>The squares of the line from one reported end point to the other.\<close>

definition line_cells :: "winline \<Rightarrow> int list" where
  "line_cells l =
     (case l of ((r1, c1), (r2, c2)) \<Rightarrow>
        [3 * r1 + c1, 3 * ((r1 + r2) div 2) + (c1 + c2) div 2, 3 * r2 + c2])"

text \<open>Whose turn the count rule gives.\<close>

definition turn_by_counts :: "nat \<Rightarrow> nat \<Rightarrow> mark \<Rightarrow> mark" where
  "turn_by_counts cx co initial = (if cx = co then initial else if cx < co then MarkX else MarkO)"

definition balanced :: "board \<Rightarrow> bool" where
  "balanced b \<longleftrightarrow> \<bar>int (count_list b (Some MarkX)) - int (count_list b (Some MarkO))\<bar> \<le> 1"

subsection \<open>Reading squares\<close>

lemma sq_Str_iff [js_simps]:
  "sq b k = Str m \<longleftrightarrow> 0 \<le> k \<and> k < int (length b) \<and> b ! nat k = Some m"
  by (auto simp: sq_def js_get_def split: option.splits)

lemma sq_Null_iff [js_simps]:
  "sq b k = Null \<longleftrightarrow> 0 \<le> k \<and> k < int (length b) \<and> b ! nat k = None"
  by (auto simp: sq_def js_get_def split: option.splits)

lemma sq_nat: "k < length b \<Longrightarrow> sq b (int k) = (case b ! k of None \<Rightarrow> Null | Some m \<Rightarrow> Str m)"
  by (simp add: sq_def)

subsection \<open>The loops visit the eight lines\<close>

lemma line_hit_Null: "sq b p = Null \<Longrightarrow> line_hit b ((p, q, r), l) = None"
  by (simp add: line_hit_def)

lemma line_hit_nonNull:
  "sq b p \<noteq> Null \<Longrightarrow>
   line_hit b ((p, q, r), l) = (if sq b p = sq b q \<and> sq b p = sq b r then Some (sq b p, Some l) else None)"
  by (simp add: line_hit_def)

lemma horizontal_lines:
  "first_hit (horizontal_hit b) [0..rows - 1] =
   first_hit (line_hit b) [((2, 1, 0), ((0, 0), (0, 2))), ((5, 4, 3), ((1, 0), (1, 2))), ((8, 7, 6), ((2, 0), (2, 2)))]"
proof -
  define g where "g = (\<lambda>i. ((i * rows + (cols - 1), i * rows + (cols - 2), i * rows + (cols - 3)),
                 ((i, cols - 3), (i, cols - 1))))"
  have h: "horizontal_hit b = line_hit b \<circ> g"
    by (rule ext) (simp only: horizontal_hit_def line_hit_def js_num_and js_num_nonzero prod.case comp_def g_def)
  have u: "[0..rows - 1] = [0, 1, 2]" by (simp add: rows_def upto.simps)
  have m: "map g [0, 1, 2] =
     [((2, 1, 0), ((0, 0), (0, 2))), ((5, 4, 3), ((1, 0), (1, 2))), ((8, 7, 6), ((2, 0), (2, 2)))]"
    by (simp add: g_def rows_def cols_def)
  show ?thesis unfolding h u first_hit_map [symmetric] m ..
qed

lemma vertical_lines:
  "first_hit (vertical_hit b) [0..cols - 1] =
   first_hit (line_hit b) [((6, 3, 0), ((0, 0), (2, 0))), ((7, 4, 1), ((0, 1), (2, 1))), ((8, 5, 2), ((0, 2), (2, 2)))]"
proof -
  define g where "g = (\<lambda>j. (((rows - 1) * rows + j, (rows - 2) * rows + j, (rows - 3) * rows + j),
                 ((rows - 3, j), (rows - 1, j))))"
  have h: "vertical_hit b = line_hit b \<circ> g"
    by (rule ext) (simp only: vertical_hit_def line_hit_def js_num_and js_num_nonzero prod.case comp_def g_def)
  have u: "[0..cols - 1] = [0, 1, 2]" by (simp add: cols_def upto.simps)
  have m: "map g [0, 1, 2] =
     [((6, 3, 0), ((0, 0), (2, 0))), ((7, 4, 1), ((0, 1), (2, 1))), ((8, 5, 2), ((0, 2), (2, 2)))]"
    by (simp add: g_def rows_def cols_def)
  show ?thesis unfolding h u first_hit_map [symmetric] m ..
qed

lemma diagonal_lines:
  "diagonal_hit b = first_hit (line_hit b) [((4, 0, 8), ((0, 0), (2, 2))), ((4, 2, 6), ((0, 2), (2, 0)))]"
proof -
  have n: "(3 * 3) mod 2 = (1::int)" "(3 * 3 + 1) div 2 - 1 = (4::int)"
    "(3 - 3) * 3 + (3 - 3) = (0::int)" "(3 - 1) * 3 + (3 - 1) = (8::int)"
    "(3 - 3) * 3 + (3 - 1) = (2::int)" "(3 - 1) * 3 + (3 - 3) = (6::int)"
    "(3 - 3) = (0::int)" "(3 - 1) = (2::int)"
    "0 * 3 + 0 = (0::int)" "2 * 3 + 2 = (8::int)" "0 * 3 + 2 = (2::int)" "2 * 3 + 0 = (6::int)"
    "((1::int) = 1) = True"
    by simp_all
  have d: "diagonal_hit b =
     (if sq b 4 \<noteq> Null then
        (if sq b 4 = sq b 0 \<and> sq b 4 = sq b 8 then Some (sq b 4, Some ((0, 0), (2, 2)))
         else if sq b 4 = sq b 2 \<and> sq b 4 = sq b 6 then Some (sq b 4, Some ((0, 2), (2, 0)))
         else None)
      else None)"
    by (simp only: diagonal_hit_def Let_def js_num_and js_num_nonzero rows_def cols_def n if_True)
  show ?thesis
  proof (cases "sq b 4 = Null")
    case True
    then show ?thesis by (simp add: d line_hit_Null)
  next
    case False
    have h1: "line_hit b ((4, 0, 8), l) =
        (if sq b 4 = sq b 0 \<and> sq b 4 = sq b 8 then Some (sq b 4, Some l) else None)" for l
      using False by (rule line_hit_nonNull)
    have h2: "line_hit b ((4, 2, 6), l) =
        (if sq b 4 = sq b 2 \<and> sq b 4 = sq b 6 then Some (sq b 4, Some l) else None)" for l
      using False by (rule line_hit_nonNull)
    show ?thesis
      unfolding d first_hit.simps h1 h2 using False by (auto split: if_split)
  qed
qed

lemma win_lines_split:
  "win_lines = [((2, 1, 0), ((0, 0), (0, 2))), ((5, 4, 3), ((1, 0), (1, 2))), ((8, 7, 6), ((2, 0), (2, 2)))]
     @ [((6, 3, 0), ((0, 0), (2, 0))), ((7, 4, 1), ((0, 1), (2, 1))), ((8, 5, 2), ((0, 2), (2, 2)))]
     @ [((4, 0, 8), ((0, 0), (2, 2))), ((4, 2, 6), ((0, 2), (2, 0)))]"
  by (simp add: win_lines_def)

lemma calculateWinner_lines: "calculateWinner b = winner_ref b"
  unfolding calculateWinner_def winner_ref_def win_lines_split case_first_hit_append
    horizontal_lines vertical_lines diagonal_lines ..

subsection \<open>What a hit on a line means\<close>

lemma line_hit_SomeD:
  "line_hit b ((p, q, r), l0) = Some (w, l) \<Longrightarrow>
   w = sq b p \<and> w \<noteq> Null \<and> sq b q = w \<and> sq b r = w \<and> l = Some l0"
  by (auto simp: line_hit_def split: if_splits)

lemma line_hit_fst: "line_hit b t = Some r \<Longrightarrow> fst r \<noteq> Null"
  by (cases t) (auto simp: line_hit_def split: if_splits)

lemma win_line_cells:
  "((p, q, r), l) \<in> set win_lines \<Longrightarrow> set (line_cells l) = {p, q, r}"
  unfolding win_lines_def by (auto simp: line_cells_def)

lemma win_line_three:
  assumes "((p, q, r), l) \<in> set win_lines" and "\<forall>k \<in> set (line_cells l). sq b k = Str m"
  shows "three_in_a_row b m"
proof -
  have cells: "b ! nat p = Some m" "b ! nat q = Some m" "b ! nat r = Some m"
    using assms(2) win_line_cells [OF assms(1)] by (auto simp: sq_Str_iff)
  have "(p, q, r) \<in> {(2, 1, 0), (5, 4, 3), (8, 7, 6), (6, 3, 0), (7, 4, 1), (8, 5, 2), (4, 0, 8), (4, 2, 6)}"
    using assms(1) unfolding win_lines_def by auto
  then show ?thesis
    using cells
    by (elim insertE emptyE;
        simp add: three_in_a_row_def ex_less_3_nat all_less_3_nat cell_def; simp add: eval_nat_numeral)
qed

lemma win_line_owned:
  assumes "t \<in> set win_lines" and "line_hit b t = Some (Str m, Some l)"
  shows "(\<forall>k \<in> set (line_cells l). sq b k = Str m) \<and> three_in_a_row b m"
proof -
  obtain p q r l0 where t: "t = ((p, q, r), l0)" by (cases t) auto
  with assms(2) have "sq b p = Str m" "sq b q = Str m" "sq b r = Str m" "l = l0"
    by (auto dest: line_hit_SomeD)
  moreover have "set (line_cells l0) = {p, q, r}"
    using assms(1) t by (simp add: win_line_cells)
  ultimately have cells: "\<forall>k \<in> set (line_cells l). sq b k = Str m" by auto
  with assms(1) t \<open>l = l0\<close> have "three_in_a_row b m"
    by (auto intro: win_line_three)
  with cells show ?thesis ..
qed

lemma win_line_in_range:
  "((p, q, r), l) \<in> set win_lines \<Longrightarrow> 0 \<le> p \<and> p < 9 \<and> 0 \<le> q \<and> q < 9 \<and> 0 \<le> r \<and> r < 9"
  unfolding win_lines_def by auto

lemma three_in_a_row_lines:
  "three_in_a_row b m \<longleftrightarrow>
   (\<exists>((p, q, r), l) \<in> set win_lines. b ! nat p = Some m \<and> b ! nat q = Some m \<and> b ! nat r = Some m)"
  unfolding three_in_a_row_def ex_less_3_nat all_less_3_nat cell_def win_lines_def
  by (rule iffI; simp add: eval_nat_numeral; elim disjE conjE; simp)

lemma line_hit_full:
  assumes "length b = 9" and "((p, q, r), l) \<in> set win_lines"
    and "b ! nat p = Some m" "b ! nat q = Some m" "b ! nat r = Some m"
  shows "line_hit b ((p, q, r), l) = Some (Str m, Some l)"
proof -
  from assms(1,2) have "0 \<le> p \<and> p < int (length b)" "0 \<le> q \<and> q < int (length b)"
    "0 \<le> r \<and> r < int (length b)"
    using win_line_in_range by auto
  with assms(3-5) have "sq b p = Str m" "sq b q = Str m" "sq b r = Str m"
    by (simp_all add: sq_Str_iff)
  then show ?thesis by (simp add: line_hit_def)
qed

lemma line_hit_Str:
  assumes "length b = 9" and "t \<in> set win_lines" and "line_hit b t = Some (w, l)"
  shows "\<exists>m. w = Str m"
proof -
  obtain p q r l0 where t: "t = ((p, q, r), l0)" by (cases t) auto
  with assms(3) have "w = sq b p" "w \<noteq> Null" by (auto dest: line_hit_SomeD)
  moreover from assms(1,2) t have "0 \<le> p \<and> p < int (length b)"
    using win_line_in_range by auto
  ultimately show ?thesis by (auto simp: sq_def js_get_def split: option.splits)
qed

lemma three_in_a_row_hit:
  assumes "length b = 9" and "three_in_a_row b m"
  shows "\<exists>t \<in> set win_lines. line_hit b t \<noteq> None"
proof -
  from assms(2) obtain p q r l where "((p, q, r), l) \<in> set win_lines"
    and "b ! nat p = Some m" "b ! nat q = Some m" "b ! nat r = Some m"
    unfolding three_in_a_row_lines by blast
  with assms(1) show ?thesis by (fastforce dest: line_hit_full)
qed

subsection \<open>Soundness and completeness of the winner check\<close>

lemma winner_owns_line:
  "calculateWinner b = (Str m, Some l) \<Longrightarrow>
   (\<forall>k \<in> set (line_cells l). sq b k = Str m) \<and> three_in_a_row b m"
proof -
  assume "calculateWinner b = (Str m, Some l)"
  then have "first_hit (line_hit b) win_lines = Some (Str m, Some l)"
    by (auto simp: calculateWinner_lines winner_ref_def split: option.splits)
  then obtain t where "t \<in> set win_lines" "line_hit b t = Some (Str m, Some l)"
    by (blast dest: first_hit_Some)
  then show ?thesis by (rule win_line_owned)
qed

lemma winner_Null_iff:
  assumes "length b = 9"
  shows "fst (calculateWinner b) = Null \<longleftrightarrow> (\<forall>m. \<not> three_in_a_row b m)"
proof
  assume nul: "fst (calculateWinner b) = Null"
  have none: "first_hit (line_hit b) win_lines = None"
  proof (rule ccontr)
    assume "first_hit (line_hit b) win_lines \<noteq> None"
    then obtain r where "first_hit (line_hit b) win_lines = Some r" by blast
    moreover then obtain t where "line_hit b t = Some r" by (blast dest: first_hit_Some)
    ultimately show False using nul line_hit_fst
      by (fastforce simp: calculateWinner_lines winner_ref_def)
  qed
  show "\<forall>m. \<not> three_in_a_row b m"
    using none three_in_a_row_hit [OF assms] by (auto simp: first_hit_None_iff)
next
  assume no: "\<forall>m. \<not> three_in_a_row b m"
  have "line_hit b t = None" if t: "t \<in> set win_lines" for t
  proof (rule ccontr)
    assume "line_hit b t \<noteq> None"
    then obtain w l where h: "line_hit b t = Some (w, l)" by auto
    with assms t obtain m where "w = Str m" by (blast dest: line_hit_Str)
    moreover obtain l0 where "l = Some l0"
      using h by (cases t) (auto dest: line_hit_SomeD)
    ultimately have "line_hit b t = Some (Str m, Some l0)" using h by simp
    with no show False using win_line_owned [OF t] by blast
  qed
  then show "fst (calculateWinner b) = Null"
    by (simp add: calculateWinner_lines winner_ref_def first_hit_None_iff [THEN iffD2])
qed

lemma winner_result_cases:
  assumes "length b = 9"
  shows "fst (calculateWinner b) = Null \<or> (\<exists>m l. calculateWinner b = (Str m, Some l))"
proof (cases "first_hit (line_hit b) win_lines")
  case None
  then show ?thesis by (simp add: calculateWinner_lines winner_ref_def)
next
  case (Some r)
  then obtain t where ht: "t \<in> set win_lines" "line_hit b t = Some r" by (blast dest: first_hit_Some)
  obtain w l where r: "r = (w, l)" by (cases r)
  from assms ht r obtain m where "w = Str m" by (blast dest: line_hit_Str)
  moreover obtain p q r' l0 where tt: "t = ((p, q, r'), l0)" by (cases t) auto
  with ht r have "l = Some l0" by (auto dest: line_hit_SomeD)
  ultimately have "calculateWinner b = (Str m, Some l0)"
    using Some r by (simp add: calculateWinner_lines winner_ref_def)
  then show ?thesis by blast
qed

subsection \<open>Counting marks\<close>

lemma fold_count_square:
  "fold (count_square b) ks c =
     (fst c + int (length (filter (\<lambda>k. sq b k = Str MarkX) ks)),
      snd c + int (length (filter (\<lambda>k. sq b k = Str MarkO) ks)))"
proof (induction ks arbitrary: c)
  case Nil
  then show ?case by simp
next
  case (Cons k ks)
  then show ?case
    by (simp add: count_square_def split: jsval.split mark.split)
qed

lemma count_indices:
  "length (filter (\<lambda>k. sq b k = Str m) (map int [0..<n])) = count_list (take n b) (Some m)"
proof (induction n)
  case 0
  then show ?case by simp
next
  case (Suc n)
  then show ?case
    by (cases "n < length b") (simp_all add: take_Suc_conv_app_nth sq_nat sq_Str_iff split: option.split)
qed

lemma count_loops_flat:
  "fold (\<lambda>i. fold (\<lambda>j. count_square b (i * rows + j)) [0..cols - 1]) [0..rows - 1] c =
   fold (count_square b) (map int [0..<9]) c"
  by (simp add: rows_def cols_def upto.simps upt_rec)

lemma next_value_counts:
  "calculateNextValue b m =
     turn_by_counts (count_list (take 9 b) (Some MarkX)) (count_list (take 9 b) (Some MarkO)) m"
  unfolding calculateNextValue_def count_loops_flat fold_count_square count_indices
  by (simp add: turn_by_counts_def)


subsection \<open>The random draw\<close>

lemma random_initial_halves:
  assumes "0 \<le> r" and "r < 1"
  shows "generateRandomInitial r = Some (if r < 1 / 2 then MarkX else MarkO)"
proof (cases "r < 1 / 2")
  case True
  with assms have "\<lfloor>r * 2\<rfloor> = 0" by (simp add: floor_eq_iff)
  with True show ?thesis by (simp add: generateRandomInitial_def js_get_def)
next
  case False
  with assms have "\<lfloor>r * 2\<rfloor> = 1" by (simp add: floor_eq_iff)
  with False show ?thesis by (simp add: generateRandomInitial_def js_get_def)
qed


subsection \<open>Placing a mark on an empty square\<close>

lemma place_keeps_lines:
  "three_in_a_row (b[k := v]) m \<Longrightarrow> v \<noteq> Some m \<Longrightarrow> three_in_a_row b m"
  unfolding three_in_a_row_lines by (blast dest: nth_update_keeps)

lemma place_balanced:
  assumes "length b = 9" and "k < 9" and "b ! k = None" and "balanced b"
  shows "balanced (b[k := Some (calculateNextValue b m)])"
proof -
  have t: "take 9 b = b" using assms(1) by simp
  let ?x = "count_list b (Some MarkX)" and ?o = "count_list b (Some MarkO)"
  have x: "count_list (b[k := Some v]) (Some MarkX) = ?x + (if v = MarkX then 1 else 0)" for v
    using assms(1-3) by (simp add: count_list_fill_empty)
  have o: "count_list (b[k := Some v]) (Some MarkO) = ?o + (if v = MarkO then 1 else 0)" for v
    using assms(1-3) by (simp add: count_list_fill_empty)
  have "calculateNextValue b m = turn_by_counts ?x ?o m"
    using t by (simp add: next_value_counts)
  then show ?thesis
    using assms(4) x o by (cases m) (auto simp: turn_by_counts_def balanced_def)
qed

lemma place_empties:
  "k < length b \<Longrightarrow> b ! k = None \<Longrightarrow> count_list (b[k := Some m]) None = count_list b None - 1"
  by (simp add: count_list_update)


subsection \<open>Evaluation rules\<close>

text \<open>The rules that evaluate the engine on a concrete board, through the reference forms.\<close>

lemma emptyBoard_list: "emptyBoard = [None, None, None, None, None, None, None, None, None]"
  by (simp add: emptyBoard_def eval_nat_numeral)

lemmas engine_eval = calculateWinner_lines winner_ref_def win_lines_def line_hit_def sq_def js_get_def
  next_value_counts turn_by_counts_def emptyBoard_list


subsection \<open>Properties of the engine\<close>

text \<open>C7: the loops of \<open>calculateWinner\<close>, with their index arithmetic
  on \<open>rows\<close> and \<open>cols\<close> and the bitwise \<open>&\<close> of the comparisons, test exactly the
  eight lines of the board, in the order rows, columns, \<open>\\\<close> diagonal, \<open>/\<close> diagonal,
  and return the first line whose three squares are equal and not \<open>null\<close>.\<close>

theorem calculateWinner_equiv:
  "calculateWinner b = (case first_hit (line_hit b) win_lines of Some r \<Rightarrow> r | None \<Rightarrow> (Null, None))"
  using calculateWinner_lines [of b] by (simp add: winner_ref_def)

text \<open>C3: when \<open>calculateWinner\<close> reports a mark and two end points, the
  three squares of the line between the end points hold that mark, and the board has three
  in a row for it.\<close>

theorem calculateWinner_sound:
  "calculateWinner b = (Str m, Some l) \<Longrightarrow>
   (\<forall>k \<in> set (line_cells l). sq b k = Str m) \<and> three_in_a_row b m"
  by (rule winner_owns_line)

theorem calculateWinner_sound_witness:
  "calculateWinner (emptyBoard[0 := Some MarkX, 1 := Some MarkO, 3 := Some MarkX, 4 := Some MarkO, 6 := Some MarkX]) = (Str MarkX, Some ((0, 0), (2, 0))) \<and>
   line_cells ((0, 0), (2, 0)) = [0, 3, 6] \<and>
   sq (emptyBoard[0 := Some MarkX, 1 := Some MarkO, 3 := Some MarkX, 4 := Some MarkO, 6 := Some MarkX]) 0 = Str MarkX \<and> sq (emptyBoard[0 := Some MarkX, 1 := Some MarkO, 3 := Some MarkX, 4 := Some MarkO, 6 := Some MarkX]) 3 = Str MarkX \<and>
   sq (emptyBoard[0 := Some MarkX, 1 := Some MarkO, 3 := Some MarkX, 4 := Some MarkO, 6 := Some MarkX]) 6 = Str MarkX \<and> three_in_a_row (emptyBoard[0 := Some MarkX, 1 := Some MarkO, 3 := Some MarkX, 4 := Some MarkO, 6 := Some MarkX]) MarkX"
proof -
  have w: "calculateWinner (emptyBoard[0 := Some MarkX, 1 := Some MarkO, 3 := Some MarkX, 4 := Some MarkO, 6 := Some MarkX]) = (Str MarkX, Some ((0, 0), (2, 0)))"
    by (simp add: engine_eval)
  have c: "line_cells ((0, 0), (2, 0)) = [0, 3, 6]" by (simp add: line_cells_def)
  show ?thesis using calculateWinner_sound [OF w] w c by simp
qed

text \<open>C2: on a board of nine squares \<open>calculateWinner\<close> reports no
  winner exactly when no row, column or diagonal holds three equal marks: the four checks
  the code makes are complete for the 3\<open>\<times>\<close>3 board.\<close>

theorem calculateWinner_complete:
  "length b = 9 \<Longrightarrow> fst (calculateWinner b) = Null \<longleftrightarrow> (\<forall>m. \<not> three_in_a_row b m)"
  by (rule winner_Null_iff)

theorem calculateWinner_complete_witness:
  "length [Some MarkX, Some MarkO, Some MarkX, Some MarkX, Some MarkO, Some MarkO, Some MarkO, Some MarkX, Some MarkX] = 9 \<and>
   fst (calculateWinner [Some MarkX, Some MarkO, Some MarkX, Some MarkX, Some MarkO, Some MarkO, Some MarkO, Some MarkX, Some MarkX]) = Null \<and>
   (\<forall>m. \<not> three_in_a_row [Some MarkX, Some MarkO, Some MarkX, Some MarkX, Some MarkO, Some MarkO, Some MarkO, Some MarkX, Some MarkX] m)"
proof -
  have l: "length [Some MarkX, Some MarkO, Some MarkX, Some MarkX, Some MarkO, Some MarkO, Some MarkO, Some MarkX, Some MarkX] = 9" by simp
  have w: "fst (calculateWinner [Some MarkX, Some MarkO, Some MarkX, Some MarkX, Some MarkO, Some MarkO, Some MarkO, Some MarkX, Some MarkX]) = Null"
    by (simp add: engine_eval)
  show ?thesis using calculateWinner_complete [OF l] l w by simp
qed

text \<open>C8: \<open>calculateNextValue\<close> counts the marks on the nine squares
  it visits and gives the move to the mark with fewer squares, and to the starting mark when
  the counts are equal.\<close>

theorem calculateNextValue_counts:
  "calculateNextValue b m =
     turn_by_counts (count_list (take 9 b) (Some MarkX)) (count_list (take 9 b) (Some MarkO)) m"
  by (rule next_value_counts)

text \<open>C14: for every value \<open>Math.random()\<close> can return, the index
  \<open>Math.floor(r * 2)\<close> is 0 or 1, so a mark is always drawn: X on \<open>[0, 1/2)\<close>, O on
  \<open>[1/2, 1)\<close>, two halves of equal length.\<close>

theorem generateRandomInitial_uniform:
  "0 \<le> r \<Longrightarrow> r < 1 \<Longrightarrow> generateRandomInitial r = Some (if r < 1 / 2 then MarkX else MarkO)"
  by (rule random_initial_halves)

theorem generateRandomInitial_uniform_witness:
  "(0::real) \<le> 1 / 4 \<and> (1 / 4 :: real) < 1 \<and> generateRandomInitial (1 / 4) = Some MarkX"
  using generateRandomInitial_uniform [of "1 / 4"] by simp

end
