(* ===== verification/History.thy ===== *)
theory History
  imports Board
begin

text \<open>
  The \<open>Board\<close> component of \<open>src/src/Game.js\<close> (lines 9--108) as a state machine.
  Its state is the four values it keeps with \<open>useLocalStorage\<close> (lines 10--13): the
  squares on display, the starting mark, the list of snapshots and the index of the
  snapshot on display. The handlers \<open>selectSquare\<close>, \<open>previous\<close>, \<open>next\<close> and
  \<open>restart\<close> (lines 21--49) are functions from the state to the next state; reading a
  snapshot that is not there makes \<open>squares\<close> \<open>undefined\<close>, after which the next render
  throws, so such a read is the error value \<open>Inl UndefinedBoard\<close>. The rendered buttons
  (lines 51--87) decide which handler a click reaches: a disabled button ignores the click.
  \<open>reachable\<close> is the set of states a session can get into. The invariant
  \<open>wf_game\<close> says how the four values agree; every handler keeps it. \<open>typed_game\<close>, weaker, is only
  the shape of the four values the code relies on; every handler keeps it as well.
\<close>

subsection \<open>State, errors and events\<close>

record game =
  squares :: board
  initial :: mark
  gameHistory :: "board list"
  gameIdx :: int

text \<open>Why \<open>selectSquare\<close> returns early: the three disjuncts of line 22, in order.\<close>

datatype move_error = GameAlreadyWon | CellOccupied | NotAtLatestState

text \<open>A value read as \<open>undefined\<close> where the component needs a board or a mark.\<close>

datatype js_error = UndefinedBoard | UndefinedInitial

text \<open>A click on one of the rendered buttons; a restart carries the value of \<open>Math.random()\<close>.\<close>

datatype event = ClickSquare int | ClickPrevious | ClickNext | ClickRestart real

subsection \<open>The component\<close>

text \<open>
  First render with empty storage (lines 10--13): every hook returns its default value.
  The draw of the starting mark uses the random number given.
\<close>

definition mount :: "real \<Rightarrow> js_error + game" where
  "mount r =
     (case generateRandomInitial r of
        None \<Rightarrow> Inl UndefinedInitial
      | Some m \<Rightarrow> Inr \<lparr>squares = emptyBoard, initial = m, gameHistory = [emptyBoard], gameIdx = 0\<rparr>)"

text \<open>
  The values each render derives from the state (lines 15--17); \<open>nextValue ?? null\<close> is
  \<open>nextValue\<close> itself, a mark.
\<close>

definition board_status :: "game \<Rightarrow> string" where
  "board_status s =
     calculateStatus (fst (calculateWinner (squares s))) (squares s)
       (Str (calculateNextValue (squares s) (initial s)))"

definition select_guard :: "game \<Rightarrow> int \<Rightarrow> move_error option" where
  "select_guard s square =
     (if fst (calculateWinner (squares s)) \<noteq> Null then Some GameAlreadyWon
      else if sq (squares s) square \<noteq> Null then Some CellOccupied
      else if gameIdx s + 1 < int (length (gameHistory s)) then Some NotAtLatestState
      else None)"

definition selectSquare :: "game \<Rightarrow> int \<Rightarrow> game" where
  "selectSquare s square =
     (case select_guard s square of
        Some _ \<Rightarrow> s
      | None \<Rightarrow>
          let squaresCopy = (squares s)[nat square := Some (calculateNextValue (squares s) (initial s))]
          in s\<lparr>squares := squaresCopy, gameHistory := gameHistory s @ [squaresCopy],
               gameIdx := gameIdx s + 1\<rparr>)"

definition previous :: "game \<Rightarrow> js_error + game" where
  "previous s =
     (case js_get (gameHistory s) (gameIdx s - 1) of
        None \<Rightarrow> Inl UndefinedBoard
      | Some b \<Rightarrow> Inr (s\<lparr>squares := b, gameIdx := gameIdx s - 1\<rparr>))"

text \<open>The handler \<open>next\<close> (\<open>next\<close> is a keyword of Isabelle).\<close>

definition next' :: "game \<Rightarrow> js_error + game" where
  "next' s =
     (case js_get (gameHistory s) (gameIdx s + 1) of
        None \<Rightarrow> Inl UndefinedBoard
      | Some b \<Rightarrow> Inr (s\<lparr>gameIdx := gameIdx s + 1, squares := b\<rparr>))"

definition restart :: "game \<Rightarrow> real \<Rightarrow> js_error + game" where
  "restart s r =
     (case generateRandomInitial r of
        None \<Rightarrow> Inl UndefinedInitial
      | Some m \<Rightarrow> Inr (s\<lparr>squares := emptyBoard, initial := m, gameIdx := 0,
                         gameHistory := [emptyBoard]\<rparr>))"

text \<open>
  The rendered buttons: a square calls \<open>selectSquare\<close>; \<open>previous\<close> is disabled when
  \<open>gameIdx < 1\<close> and \<open>next\<close> when \<open>gameIdx + 1 >= gameHistory.length\<close>.
\<close>

fun on_event :: "game \<Rightarrow> event \<Rightarrow> js_error + game" where
  "on_event s (ClickSquare i) = Inr (selectSquare s i)"
| "on_event s ClickPrevious = (if gameIdx s < 1 then Inr s else previous s)"
| "on_event s ClickNext =
     (if int (length (gameHistory s)) \<le> gameIdx s + 1 then Inr s else next' s)"
| "on_event s (ClickRestart r) = restart s r"

text \<open>\<open>Math.random()\<close> returns a number in \<open>[0, 1)\<close>.\<close>

fun event_ok :: "event \<Rightarrow> bool" where
  "event_ok (ClickRestart r) \<longleftrightarrow> 0 \<le> r \<and> r < 1"
| "event_ok _ \<longleftrightarrow> True"

inductive reachable :: "game \<Rightarrow> bool" where
  mounted: "0 \<le> r \<Longrightarrow> r < 1 \<Longrightarrow> mount r = Inr s \<Longrightarrow> reachable s"
| clicked: "reachable s \<Longrightarrow> event_ok e \<Longrightarrow> on_event s e = Inr s' \<Longrightarrow> reachable s'"

subsection \<open>The invariant\<close>

text \<open>One move: an empty square receives the mark whose turn it is.\<close>

definition placed :: "mark \<Rightarrow> board \<Rightarrow> board \<Rightarrow> bool" where
  "placed m b b' \<longleftrightarrow> (\<exists>k < length b. b ! k = None \<and> b' = b[k := Some (calculateNextValue b m)])"

definition wf_game :: "game \<Rightarrow> bool" where
  "wf_game s \<longleftrightarrow>
     gameHistory s \<noteq> [] \<and> hd (gameHistory s) = emptyBoard \<and>
     0 \<le> gameIdx s \<and> gameIdx s < int (length (gameHistory s)) \<and>
     squares s = gameHistory s ! nat (gameIdx s) \<and>
     successively (placed (initial s)) (gameHistory s) \<and>
     (\<forall>k < length (gameHistory s) - 1. fst (calculateWinner (gameHistory s ! k)) = Null)"

subsection \<open>The shape of the state\<close>

text \<open>
  What the code assumes of the four values without checking it: boards of nine squares,
  a non-empty history and an index into it. It is weaker than \<open>wf_game\<close>: it says
  nothing of how the snapshots follow each other.
\<close>

definition typed_game :: "game \<Rightarrow> bool" where
  "typed_game s \<longleftrightarrow>
     length (squares s) = 9 \<and> gameHistory s \<noteq> [] \<and> list_all (\<lambda>b. length b = 9) (gameHistory s) \<and>
     0 \<le> gameIdx s \<and> gameIdx s < int (length (gameHistory s))"

subsection \<open>Sessions\<close>

text \<open>
  A session of the user: the component is mounted with a random number, then receives a
  sequence of clicks, one after another; the first \<open>undefined\<close> read ends it.
\<close>

fun run :: "game \<Rightarrow> event list \<Rightarrow> js_error + game" where
  "run s [] = Inr s"
| "run s (e # es) = (case on_event s e of Inl err \<Rightarrow> Inl err | Inr s' \<Rightarrow> run s' es)"

definition session :: "real \<Rightarrow> event list \<Rightarrow> js_error + game" where
  "session r es = (case mount r of Inl err \<Rightarrow> Inl err | Inr s \<Rightarrow> run s es)"

subsection \<open>Sample states\<close>

text \<open>
  States the examples below use: the first render with X drawn as starting mark; the
  state after the moves 4 and 0 and one click on \<open>previous\<close>; and the state after the
  moves 0, 1, 3, 4, 6 of the specification's scenario B, where X has won.
\<close>

abbreviation start_state :: game where
  "start_state \<equiv> \<lparr>squares = emptyBoard, initial = MarkX, gameHistory = [emptyBoard], gameIdx = 0\<rparr>"

abbreviation undone_state :: game where
  "undone_state \<equiv> \<lparr>squares = emptyBoard[4 := Some MarkX], initial = MarkX,
     gameHistory = [emptyBoard, emptyBoard[4 := Some MarkX], emptyBoard[4 := Some MarkX, 0 := Some MarkO]],
     gameIdx = 1\<rparr>"

abbreviation won_state :: game where
  "won_state \<equiv> \<lparr>squares = emptyBoard[0 := Some MarkX, 1 := Some MarkO, 3 := Some MarkX, 4 := Some MarkO, 6 := Some MarkX],
     initial = MarkX,
     gameHistory = [emptyBoard, emptyBoard[0 := Some MarkX], emptyBoard[0 := Some MarkX, 1 := Some MarkO],
       emptyBoard[0 := Some MarkX, 1 := Some MarkO, 3 := Some MarkX],
       emptyBoard[0 := Some MarkX, 1 := Some MarkO, 3 := Some MarkX, 4 := Some MarkO],
       emptyBoard[0 := Some MarkX, 1 := Some MarkO, 3 := Some MarkX, 4 := Some MarkO, 6 := Some MarkX]],
     gameIdx = 5\<rparr>"

subsection \<open>Every handler keeps the invariant\<close>

lemma wf_mount: "mount r = Inr s \<Longrightarrow> wf_game s"
  by (auto simp: mount_def wf_game_def split: option.splits)

lemma wf_restart: "restart s r = Inr s' \<Longrightarrow> wf_game s'"
  by (auto simp: restart_def wf_game_def split: option.splits)

lemma wf_at_head:
  assumes "wf_game s" and "\<not> gameIdx s + 1 < int (length (gameHistory s))"
  shows "nat (gameIdx s) = length (gameHistory s) - 1 \<and> squares s = last (gameHistory s)"
proof -
  from assms have "gameIdx s = int (length (gameHistory s)) - 1"
    by (simp add: wf_game_def)
  then have i: "nat (gameIdx s) = length (gameHistory s) - 1" by simp
  with assms(1) show ?thesis by (simp add: wf_game_def last_conv_nth)
qed

lemma select_guard_None:
  "select_guard s i = None \<Longrightarrow>
   fst (calculateWinner (squares s)) = Null \<and> 0 \<le> i \<and> i < int (length (squares s)) \<and>
   squares s ! nat i = None \<and> \<not> gameIdx s + 1 < int (length (gameHistory s))"
  by (simp add: select_guard_def sq_Null_iff split: if_splits)

lemma wf_selectSquare:
  assumes wf: "wf_game s"
  shows "wf_game (selectSquare s i)"
proof (cases "select_guard s i")
  case None
  let ?h = "gameHistory s" and ?b = "squares s"
  let ?b' = "?b[nat i := Some (calculateNextValue ?b (initial s))]"
  from None have g: "fst (calculateWinner ?b) = Null" "nat i < length ?b" "?b ! nat i = None"
    "\<not> gameIdx s + 1 < int (length ?h)"
    by (auto dest: select_guard_None)
  with wf have head: "nat (gameIdx s) = length ?h - 1" "?b = last ?h"
    by (auto dest: wf_at_head)
  have sel: "selectSquare s i = s\<lparr>squares := ?b', gameHistory := ?h @ [?b'], gameIdx := gameIdx s + 1\<rparr>"
    using None by (simp add: selectSquare_def Let_def)
  have "placed (initial s) (last ?h) ?b'"
    using g head by (auto simp: placed_def)
  moreover have "fst (calculateWinner ((?h @ [?b']) ! k)) = Null" if "k < length ?h" for k
    using wf that g head
    by (cases "k = length ?h - 1") (auto simp: wf_game_def nth_append last_conv_nth)
  ultimately show ?thesis
    using wf head unfolding sel
    by (auto simp: wf_game_def successively_snoc nth_append)
next
  case (Some e)
  with wf show ?thesis by (simp add: selectSquare_def)
qed

lemma previous_ok:
  "wf_game s \<Longrightarrow> 1 \<le> gameIdx s \<Longrightarrow>
   previous s = Inr (s\<lparr>squares := gameHistory s ! nat (gameIdx s - 1), gameIdx := gameIdx s - 1\<rparr>)"
  by (simp add: previous_def wf_game_def js_get_def)

lemma next_ok:
  "wf_game s \<Longrightarrow> gameIdx s + 1 < int (length (gameHistory s)) \<Longrightarrow>
   next' s = Inr (s\<lparr>gameIdx := gameIdx s + 1, squares := gameHistory s ! nat (gameIdx s + 1)\<rparr>)"
  by (simp add: next'_def wf_game_def js_get_def)

lemma wf_previous: "wf_game s \<Longrightarrow> 1 \<le> gameIdx s \<Longrightarrow> previous s = Inr s' \<Longrightarrow> wf_game s'"
  by (auto simp: previous_ok wf_game_def)

lemma wf_next:
  "wf_game s \<Longrightarrow> gameIdx s + 1 < int (length (gameHistory s)) \<Longrightarrow> next' s = Inr s' \<Longrightarrow> wf_game s'"
  by (auto simp: next_ok wf_game_def nat_add_distrib)

lemma wf_on_event: "wf_game s \<Longrightarrow> on_event s e = Inr s' \<Longrightarrow> wf_game s'"
proof (cases e)
  case (ClickSquare i)
  then show "wf_game s \<Longrightarrow> on_event s e = Inr s' \<Longrightarrow> wf_game s'"
    by (auto intro: wf_selectSquare)
next
  case ClickPrevious
  then show "wf_game s \<Longrightarrow> on_event s e = Inr s' \<Longrightarrow> wf_game s'"
    by (auto split: if_splits intro: wf_previous)
next
  case ClickNext
  then show "wf_game s \<Longrightarrow> on_event s e = Inr s' \<Longrightarrow> wf_game s'"
    by (auto split: if_splits intro: wf_next)
next
  case (ClickRestart r)
  then show "wf_game s \<Longrightarrow> on_event s e = Inr s' \<Longrightarrow> wf_game s'"
    by (auto intro: wf_restart)
qed

lemma reachable_wf_game: "reachable s \<Longrightarrow> wf_game s"
proof (induction rule: reachable.induct)
  case (mounted r s)
  from mounted.hyps(3) show ?case by (rule wf_mount)
next
  case (clicked s e s')
  then show ?case by (blast intro: wf_on_event)
qed


lemma run_reachable:
  "reachable s \<Longrightarrow> list_all event_ok es \<Longrightarrow> run s es = Inr s' \<Longrightarrow> reachable s'"
proof (induction es arbitrary: s)
  case Nil
  then show ?case by simp
next
  case (Cons e es)
  then obtain t where "on_event s e = Inr t" "run t es = Inr s'"
    by (auto split: sum.splits)
  with Cons show ?case by (auto intro: reachable.clicked)
qed

lemma session_reachable:
  "0 \<le> r \<Longrightarrow> r < 1 \<Longrightarrow> list_all event_ok es \<Longrightarrow> session r es = Inr s \<Longrightarrow> reachable s"
  by (auto simp: session_def split: sum.splits intro: run_reachable reachable.mounted)

text \<open>The rules that evaluate a session on concrete clicks.\<close>

lemmas game_eval = engine_eval session_def mount_def generateRandomInitial_def selectSquare_def
  select_guard_def previous_def next'_def restart_def Let_def

text \<open>C1: in every state a session can reach, the four values of the component agree:
  the history starts with the empty board, each snapshot is the previous one with the mark
  whose turn it was on an empty square, only the last snapshot may show a winner, the index
  points into the history and the squares on display are the snapshot it points to.\<close>

theorem reachable_wf: "reachable s \<Longrightarrow> wf_game s"
  by (rule reachable_wf_game)

theorem reachable_wf_witness:
  "case session (1 / 4) [ClickSquare 4, ClickSquare 0, ClickPrevious] of
     Inr s \<Rightarrow> reachable s \<and> wf_game s | Inl _ \<Rightarrow> False"
proof -
  have "session (1 / 4) [ClickSquare 4, ClickSquare 0, ClickPrevious] =
    Inr undone_state" (is "_ = Inr ?s")
    by (simp add: game_eval)
  moreover have "reachable ?s"
    by (rule session_reachable [OF _ _ _ calculation]) simp_all
  ultimately show ?thesis using reachable_wf [of ?s] by simp
qed

lemma sample_reachable:
  "reachable undone_state"
proof -
  have "session (1 / 4) [ClickSquare 4, ClickSquare 0, ClickPrevious] =
    Inr undone_state"
    by (simp add: game_eval)
  then show ?thesis by (rule session_reachable [rotated 3]) simp_all
qed

lemma winning_reachable:
  "reachable won_state"
proof -
  have "session (1 / 4) [ClickSquare 0, ClickSquare 1, ClickSquare 3, ClickSquare 4, ClickSquare 6] =
    Inr won_state"
    by (simp add: game_eval)
  then show ?thesis by (rule session_reachable [rotated 3]) simp_all
qed

subsection \<open>Consequences of the invariant\<close>

lemma emptyBoard_empties: "count_list emptyBoard None = 9"
  by (simp add: emptyBoard_def eval_nat_numeral)

lemma placed_keeps_shape:
  "placed m b b' \<Longrightarrow> length b = 9 \<and> balanced b \<Longrightarrow> length b' = 9 \<and> balanced b'"
  by (auto simp: placed_def intro: place_balanced)

lemma emptyBoard_shape: "length emptyBoard = 9 \<and> balanced emptyBoard"
  by (simp add: emptyBoard_def balanced_def)

lemma wf_history_shape:
  assumes "wf_game s" and "b \<in> set (gameHistory s)"
  shows "length b = 9 \<and> balanced b"
proof -
  from assms(1) obtain xs where h: "gameHistory s = emptyBoard # xs"
    by (cases "gameHistory s") (auto simp: wf_game_def)
  with assms(1) have succ: "successively (placed (initial s)) (emptyBoard # xs)"
    by (simp add: wf_game_def)
  have "\<forall>x \<in> set (emptyBoard # xs). length x = 9 \<and> balanced x"
    by (rule successively_carries [where Q = "\<lambda>x. length x = 9 \<and> balanced x",
          OF succ emptyBoard_shape placed_keeps_shape])
  with assms(2) h show ?thesis by auto
qed

lemma wf_squares_in_history: "wf_game s \<Longrightarrow> squares s \<in> set (gameHistory s)"
  by (auto simp: wf_game_def)

text \<open>C6: on every reachable board the numbers of X and O marks differ by
  at most one.\<close>

theorem reachable_balanced: "reachable s \<Longrightarrow> balanced (squares s)"
  using reachable_wf_game wf_history_shape wf_squares_in_history by blast


theorem reachable_balanced_witness:
  "reachable undone_state \<and> balanced (emptyBoard[4 := Some MarkX])"
  using reachable_balanced [OF sample_reachable] sample_reachable by simp

lemma wf_empties:
  assumes "wf_game s" and "k < length (gameHistory s)"
  shows "count_list (gameHistory s ! k) None = 9 - k"
  using assms(2)
proof (induction k)
  case 0
  with assms(1) show ?case by (cases "gameHistory s") (auto simp: wf_game_def emptyBoard_empties)
next
  case (Suc k)
  from assms(1) Suc.prems have "placed (initial s) (gameHistory s ! k) (gameHistory s ! Suc k)"
    by (auto simp: wf_game_def intro: successively_nth)
  then obtain j where "j < length (gameHistory s ! k)" "(gameHistory s ! k) ! j = None"
    and "gameHistory s ! Suc k = (gameHistory s ! k)[j := Some (calculateNextValue (gameHistory s ! k) (initial s))]"
    by (auto simp: placed_def)
  with Suc show ?case by (simp add: place_empties)
qed

text \<open>C13: a session never holds more than ten snapshots: the empty
  board and one per square.\<close>

theorem reachable_history_bound: "reachable s \<Longrightarrow> length (gameHistory s) \<le> 10"
proof (rule ccontr)
  assume r: "reachable s" and "\<not> length (gameHistory s) \<le> 10"
  then have long: "10 < length (gameHistory s)" by simp
  from r have wf: "wf_game s" by (rule reachable_wf_game)
  with long have "count_list (gameHistory s ! 9) None = 0" by (simp add: wf_empties)
  moreover have "placed (initial s) (gameHistory s ! 9) (gameHistory s ! Suc 9)"
    using successively_nth [of "placed (initial s)" "gameHistory s" 9] wf long
    by (simp add: wf_game_def)
  then obtain j where "j < length (gameHistory s ! 9)" "(gameHistory s ! 9) ! j = None"
    by (auto simp: placed_def)
  ultimately show False by (metis count_list_0_iff nth_mem)
qed



theorem reachable_history_bound_witness:
  "reachable undone_state \<and> length [emptyBoard, emptyBoard[4 := Some MarkX], emptyBoard[4 := Some MarkX, 0 := Some MarkO]] \<le> 10"
  using reachable_history_bound [OF sample_reachable] sample_reachable by simp

lemma emptyBoard_no_line: "\<not> three_in_a_row emptyBoard m"
  by (simp add: three_in_a_row_def cell_def emptyBoard_def ex_less_3_nat all_less_3_nat) (rule exI [of _ 0], simp)

lemma wf_one_line_owner:
  assumes wf: "wf_game s" and x: "three_in_a_row (squares s) m1" and o: "three_in_a_row (squares s) m2"
  shows "m1 = m2"
proof (cases "gameIdx s = 0")
  case True
  with wf have "squares s = emptyBoard" by (cases "gameHistory s") (auto simp: wf_game_def)
  with x show ?thesis by (simp add: emptyBoard_no_line)
next
  case False
  let ?h = "gameHistory s" and ?n = "nat (gameIdx s)"
  from wf False have n: "Suc (?n - 1) = ?n" "?n < length ?h" by (auto simp: wf_game_def)
  then have "placed (initial s) (?h ! (?n - 1)) (?h ! ?n)"
    using wf successively_nth [of "placed (initial s)" ?h "?n - 1"] by (simp add: wf_game_def)
  then obtain j v where upd: "squares s = (?h ! (?n - 1))[j := Some v]"
    using wf by (auto simp: placed_def wf_game_def)
  have prev_len: "length (?h ! (?n - 1)) = 9"
    using wf n by (simp add: wf_history_shape)
  from wf n have "fst (calculateWinner (?h ! (?n - 1))) = Null"
    by (simp add: wf_game_def)
  with prev_len have none: "\<forall>m. \<not> three_in_a_row (?h ! (?n - 1)) m"
    by (simp add: winner_Null_iff)
  have own: "m = v" if "three_in_a_row (squares s) m" for m
    using that none upd place_keeps_lines by fastforce
  from own [OF x] own [OF o] show ?thesis by simp
qed

text \<open>C5: no reachable board has three in a row for both marks; moves stop
  at the first line, so the status never has two winners to choose from.\<close>

theorem reachable_single_winner:
  "reachable s \<Longrightarrow> \<not> (three_in_a_row (squares s) MarkX \<and> three_in_a_row (squares s) MarkO)"
  using reachable_wf_game wf_one_line_owner by fastforce


theorem reachable_single_winner_witness:
  "three_in_a_row (emptyBoard[0 := Some MarkX, 1 := Some MarkO, 3 := Some MarkX, 4 := Some MarkO, 6 := Some MarkX]) MarkX \<and>
   \<not> (three_in_a_row (emptyBoard[0 := Some MarkX, 1 := Some MarkO, 3 := Some MarkX, 4 := Some MarkO, 6 := Some MarkX]) MarkX \<and>
      three_in_a_row (emptyBoard[0 := Some MarkX, 1 := Some MarkO, 3 := Some MarkX, 4 := Some MarkO, 6 := Some MarkX]) MarkO)"
proof -
  have "three_in_a_row (emptyBoard[0 := Some MarkX, 1 := Some MarkO, 3 := Some MarkX, 4 := Some MarkO, 6 := Some MarkX]) MarkX"
    by (simp add: three_in_a_row_def cell_def emptyBoard_list ex_less_3_nat all_less_3_nat)
  with reachable_single_winner [OF winning_reachable] show ?thesis by simp
qed

subsection \<open>Moves, undo and redo\<close>

text \<open>C4: a click on a square changes the state exactly when no line is
  complete, the square is one of the nine and empty, and the last snapshot is on display;
  otherwise the handler returns early and the state is unchanged.\<close>

theorem selectSquare_accepts:
  assumes "wf_game s"
  shows "selectSquare s i \<noteq> s \<longleftrightarrow>
    (\<forall>m. \<not> three_in_a_row (squares s) m) \<and> 0 \<le> i \<and> i < 9 \<and> squares s ! nat i = None \<and>
    gameIdx s + 1 = int (length (gameHistory s))" (is "_ \<longleftrightarrow> ?accept")
proof -
  have len: "length (squares s) = 9"
    using assms wf_history_shape wf_squares_in_history by blast
  have "selectSquare s i \<noteq> s \<longleftrightarrow> select_guard s i = None"
  proof
    assume "selectSquare s i \<noteq> s"
    then show "select_guard s i = None" by (auto simp: selectSquare_def split: option.splits)
  next
    assume "select_guard s i = None"
    then have "length (gameHistory (selectSquare s i)) = Suc (length (gameHistory s))"
      by (simp add: selectSquare_def Let_def)
    then show "selectSquare s i \<noteq> s" by auto
  qed
  also have "\<dots> \<longleftrightarrow> fst (calculateWinner (squares s)) = Null \<and> sq (squares s) i = Null \<and>
      \<not> gameIdx s + 1 < int (length (gameHistory s))"
    by (simp add: select_guard_def)
  also have "\<dots> \<longleftrightarrow> ?accept"
    using assms len winner_Null_iff [OF len] by (auto simp: sq_Null_iff wf_game_def)
  finally show ?thesis .
qed

lemma mount_reachable: "reachable start_state"
  by (rule reachable.mounted [of "1 / 4"]) (simp_all add: mount_def generateRandomInitial_def js_get_def)

theorem selectSquare_accepts_witness:
  "wf_game start_state \<and>
   (selectSquare start_state 4 \<noteq> start_state \<longleftrightarrow>
    (\<forall>m. \<not> three_in_a_row emptyBoard m) \<and> 0 \<le> (4::int) \<and> (4::int) < 9 \<and> emptyBoard ! nat 4 = None \<and>
    (0::int) + 1 = int (length [emptyBoard]))"
proof -
  have wf: "wf_game start_state" by (rule reachable_wf_game [OF mount_reachable])
  show ?thesis using selectSquare_accepts [OF wf, of 4] wf by simp
qed

text \<open>C9: undoing an accepted move puts back the squares and the index it
  started from; the new snapshot stays in the history, so that \<open>next\<close> can redo it.\<close>

theorem select_then_previous:
  assumes "wf_game s" and "select_guard s i = None"
  shows "previous (selectSquare s i) = Inr (s\<lparr>gameHistory := gameHistory (selectSquare s i)\<rparr>)"
proof -
  from assms have h: "nat (gameIdx s) = length (gameHistory s) - 1" "squares s = last (gameHistory s)"
    using select_guard_None wf_at_head by blast+
  with assms(1) show ?thesis using assms(2)
    by (simp add: selectSquare_def previous_def Let_def js_get_def wf_game_def nth_append)
qed


theorem select_then_previous_witness:
  "wf_game start_state \<and> select_guard start_state 4 = None \<and>
   previous (selectSquare start_state 4) =
     Inr (start_state\<lparr>gameHistory := gameHistory (selectSquare start_state 4)\<rparr>)"
proof -
  have wf: "wf_game start_state" by (rule reachable_wf_game [OF mount_reachable])
  have g: "select_guard start_state 4 = None" by (simp add: game_eval)
  show ?thesis using select_then_previous [OF wf g] wf g by simp
qed

text \<open>C10: when \<open>previous\<close> is enabled, it succeeds, and \<open>next\<close> then
  restores the state exactly.\<close>

theorem previous_then_next:
  assumes "wf_game s" and "1 \<le> gameIdx s"
  shows "\<exists>s'. previous s = Inr s' \<and> next' s' = Inr s"
  using assms by (simp add: previous_ok next_ok wf_game_def)


theorem previous_then_next_witness:
  "wf_game undone_state \<and> (1::int) \<le> 1 \<and>
   (\<exists>s'. previous undone_state = Inr s' \<and> next' s' = Inr undone_state)"
proof -
  have wf: "wf_game undone_state" by (rule reachable_wf_game [OF sample_reachable])
  show ?thesis using previous_then_next [OF wf] wf by simp
qed

text \<open>C11: in a reachable state no click on an enabled control reads
  \<open>undefined\<close>: the disabled attributes of \<open>previous\<close> and \<open>next\<close> are exactly the
  guards the handlers lack, and \<open>Math.random()\<close> always gives a starting mark.\<close>

theorem on_event_defined:
  assumes "reachable s" and "event_ok e"
  shows "\<exists>s'. on_event s e = Inr s'"
proof -
  from assms(1) have wf: "wf_game s" by (rule reachable_wf_game)
  show ?thesis
  proof (cases e)
    case (ClickRestart r)
    with assms(2) show ?thesis by (simp add: restart_def random_initial_halves)
  qed (use wf in \<open>auto simp: previous_ok next_ok\<close>)
qed


theorem on_event_defined_witness:
  "reachable start_state \<and> event_ok (ClickRestart (1 / 2)) \<and>
   (\<exists>s'. on_event start_state (ClickRestart (1 / 2)) = Inr s')"
proof -
  have ok: "event_ok (ClickRestart (1 / 2))" by simp
  show ?thesis using on_event_defined [OF mount_reachable ok] mount_reachable ok by simp
qed

text \<open>C15: \<open>previous\<close> itself has no guard: called on the first snapshot it
  reads \<open>gameHistory[-1]\<close>, which is \<open>undefined\<close>; only the disabled button keeps it
  from running.\<close>

theorem previous_unguarded:
  "wf_game s \<Longrightarrow> gameIdx s = 0 \<Longrightarrow> previous s = Inl UndefinedBoard"
  by (simp add: previous_def js_get_def)


theorem previous_unguarded_witness:
  "wf_game start_state \<and> gameIdx start_state = 0 \<and> previous start_state = Inl UndefinedBoard"
proof -
  have wf: "wf_game start_state" by (rule reachable_wf_game [OF mount_reachable])
  show ?thesis using previous_unguarded [OF wf] wf by simp
qed

subsection \<open>Restart\<close>

text \<open>C16: \<open>restart\<close> with a random number from \<open>[0, 1)\<close> returns to a fresh game:
  one empty snapshot on display and a starting mark, X for the lower half of the range.\<close>

theorem restart_resets:
  assumes "0 \<le> r" and "r < 1"
  shows "restart s r = Inr (s\<lparr>squares := emptyBoard, initial := (if r < 1 / 2 then MarkX else MarkO),
    gameIdx := 0, gameHistory := [emptyBoard]\<rparr>)"
  using assms by (simp add: restart_def random_initial_halves)

theorem restart_resets_witness:
  "(0::real) \<le> 3 / 4 \<and> (3 / 4 :: real) < 1 \<and>
   restart undone_state (3 / 4) = Inr \<lparr>squares = emptyBoard, initial = MarkO, gameHistory = [emptyBoard], gameIdx = 0\<rparr>"
  using restart_resets [of "3 / 4" "undone_state"] by simp

subsection \<open>Every handler keeps the shape\<close>

lemma typed_selectSquare:
  assumes "typed_game s"
  shows "typed_game (selectSquare s i)"
proof (cases "select_guard s i")
  case None
  then have "\<not> gameIdx s + 1 < int (length (gameHistory s))" by (simp add: select_guard_def split: if_splits)
  with assms None show ?thesis
    by (auto simp: typed_game_def selectSquare_def Let_def)
next
  case (Some e)
  with assms show ?thesis by (simp add: selectSquare_def)
qed

lemma typed_nth: "typed_game s \<Longrightarrow> 0 \<le> k \<Longrightarrow> k < int (length (gameHistory s)) \<Longrightarrow> length (gameHistory s ! nat k) = 9"
  by (auto simp: typed_game_def list_all_length)

lemma typed_on_event:
  assumes "typed_game s" and "on_event s e = Inr s'"
  shows "typed_game s'"
proof (cases e)
  case (ClickSquare i)
  with assms show ?thesis by (auto intro: typed_selectSquare)
next
  case ClickPrevious
  with assms typed_nth [OF assms(1), of "gameIdx s - 1"] show ?thesis
    by (auto simp: previous_def js_get_def typed_game_def split: if_splits)
next
  case ClickNext
  with assms typed_nth [OF assms(1), of "gameIdx s + 1"] show ?thesis
    by (auto simp: next'_def js_get_def typed_game_def split: if_splits)
next
  case (ClickRestart r)
  with assms show ?thesis
    by (auto simp: restart_def typed_game_def emptyBoard_def split: option.splits)
qed

lemma typed_on_event_defined:
  assumes "typed_game s" and "event_ok e"
  shows "\<exists>s'. on_event s e = Inr s'"
proof (cases e)
  case (ClickRestart r)
  with assms(2) show ?thesis by (simp add: restart_def random_initial_halves)
qed (use assms(1) in \<open>auto simp: previous_def next'_def js_get_def typed_game_def\<close>)

end
