(* ===== verification/Abstract.thy ===== *)
theory Abstract
  imports History
begin

text \<open>
  The history controller as the specification describes it (section 4.2): a list of
  snapshots, a cursor and a starting mark, with \<open>playMove\<close>, \<open>undo\<close>, \<open>redo\<close> and
  \<open>newGame\<close> returning an error value where they refuse. It knows nothing of React, of
  \<open>undefined\<close> or of the squares kept apart from the history. \<open>abs_game\<close> reads a state of
  the component as a controller; the lemmas show that every click the component accepts is
  the controller's operation on the abstract state, and that the component refuses a move
  for the reason the controller gives. \<open>ctrl_reachable\<close> is the controller's own state
  machine; its reachable states are exactly the component's, read through \<open>abs_game\<close>.
\<close>

subsection \<open>The specification\<close>

record controller =
  hist :: "board list"
  cursor :: nat
  start :: mark

datatype nav_error = AtStart | AtEnd

definition currentBoard :: "controller \<Rightarrow> board" where
  "currentBoard h = hist h ! cursor h"

definition has_winner :: "board \<Rightarrow> bool" where
  "has_winner b \<longleftrightarrow> three_in_a_row b MarkX \<or> three_in_a_row b MarkO"

definition turnToMove :: "board \<Rightarrow> mark \<Rightarrow> mark" where
  "turnToMove b m = turn_by_counts (count_list b (Some MarkX)) (count_list b (Some MarkO)) m"

definition newGame :: "mark \<Rightarrow> controller" where
  "newGame m = \<lparr>hist = [emptyBoard], cursor = 0, start = m\<rparr>"

definition playMove :: "controller \<Rightarrow> nat \<Rightarrow> move_error + controller" where
  "playMove h i =
     (if has_winner (currentBoard h) then Inl GameAlreadyWon
      else if currentBoard h ! i \<noteq> None then Inl CellOccupied
      else if cursor h + 1 \<noteq> length (hist h) then Inl NotAtLatestState
      else Inr (h\<lparr>hist := hist h @ [(currentBoard h)[i := Some (turnToMove (currentBoard h) (start h))]],
                 cursor := cursor h + 1\<rparr>))"

definition undo :: "controller \<Rightarrow> nav_error + controller" where
  "undo h = (if cursor h = 0 then Inl AtStart else Inr (h\<lparr>cursor := cursor h - 1\<rparr>))"

definition redo :: "controller \<Rightarrow> nav_error + controller" where
  "redo h = (if cursor h + 1 = length (hist h) then Inl AtEnd else Inr (h\<lparr>cursor := cursor h + 1\<rparr>))"

text \<open>A refused operation leaves the controller as it is.\<close>

definition settle :: "'e + controller \<Rightarrow> controller \<Rightarrow> controller" where
  "settle r h = (case r of Inl _ \<Rightarrow> h | Inr h' \<Rightarrow> h')"

text \<open>What a click asks of the controller; squares are the indices 0 to 8.\<close>

fun abs_step :: "controller \<Rightarrow> event \<Rightarrow> controller" where
  "abs_step h (ClickSquare i) = (if 0 \<le> i \<and> i < 9 then settle (playMove h (nat i)) h else h)"
| "abs_step h ClickPrevious = settle (undo h) h"
| "abs_step h ClickNext = settle (redo h) h"
| "abs_step h (ClickRestart r) = newGame (if r < 1 / 2 then MarkX else MarkO)"

text \<open>
  The controller's own state machine: a new game with either starting mark, then any
  sequence of requests, restarts drawing from \<open>[0, 1)\<close>.
\<close>

inductive ctrl_reachable :: "controller \<Rightarrow> bool" where
  started: "ctrl_reachable (newGame m)"
| requested: "ctrl_reachable h \<Longrightarrow> event_ok e \<Longrightarrow> ctrl_reachable (abs_step h e)"

definition abs_game :: "game \<Rightarrow> controller" where
  "abs_game s = \<lparr>hist = gameHistory s, cursor = nat (gameIdx s), start = initial s\<rparr>"

subsection \<open>The component implements the controller\<close>

lemma wf_current: "wf_game s \<Longrightarrow> currentBoard (abs_game s) = squares s"
  by (simp add: currentBoard_def abs_game_def wf_game_def)

lemma wf_squares_length: "wf_game s \<Longrightarrow> length (squares s) = 9"
  using wf_history_shape wf_squares_in_history by blast

lemma has_winner_iff: "length b = 9 \<Longrightarrow> has_winner b \<longleftrightarrow> fst (calculateWinner b) \<noteq> Null"
proof -
  assume len: "length b = 9"
  have "(\<forall>m. \<not> three_in_a_row b m) \<longleftrightarrow> \<not> three_in_a_row b MarkX \<and> \<not> three_in_a_row b MarkO"
    by (metis mark.exhaust)
  with winner_Null_iff [OF len] show ?thesis by (simp add: has_winner_def)
qed

lemma guard_refines:
  assumes wf: "wf_game s" and i: "0 \<le> i" "i < 9"
  shows "select_guard s i = (case playMove (abs_game s) (nat i) of Inl e \<Rightarrow> Some e | Inr _ \<Rightarrow> None)"
proof -
  have len: "length (squares s) = 9" using wf by (rule wf_squares_length)
  have c: "sq (squares s) i \<noteq> Null \<longleftrightarrow> squares s ! nat i \<noteq> None"
    using len i by (simp add: js_simps)
  have h: "gameIdx s + 1 < int (length (gameHistory s)) \<longleftrightarrow> nat (gameIdx s) + 1 \<noteq> length (gameHistory s)"
    using wf by (auto simp: wf_game_def)
  show ?thesis
    using has_winner_iff [OF len] c h wf_current [OF wf]
    by (simp add: select_guard_def playMove_def abs_game_def)
qed

lemma select_refines:
  assumes wf: "wf_game s" and i: "0 \<le> i" "i < 9"
  shows "abs_game (selectSquare s i) = settle (playMove (abs_game s) (nat i)) (abs_game s)"
proof (cases "select_guard s i")
  case None
  with guard_refines [OF wf i] obtain h' where p: "playMove (abs_game s) (nat i) = Inr h'"
    by (auto split: sum.splits)
  have len: "length (squares s) = 9" using wf by (rule wf_squares_length)
  have nv: "calculateNextValue (squares s) (initial s) = turnToMove (squares s) (initial s)"
    using len by (simp add: next_value_counts turnToMove_def)
  have "h' = (abs_game s)\<lparr>hist := gameHistory s @ [(squares s)[nat i := Some (turnToMove (squares s) (initial s))]],
                 cursor := nat (gameIdx s) + 1\<rparr>"
    using p wf_current [OF wf] by (auto simp: playMove_def abs_game_def split: if_splits)
  with None p nv wf show ?thesis
    by (simp add: selectSquare_def Let_def settle_def abs_game_def wf_game_def nat_add_distrib)
next
  case (Some e)
  with guard_refines [OF wf i] have "playMove (abs_game s) (nat i) = Inl e"
    by (auto split: sum.splits)
  with Some show ?thesis by (simp add: selectSquare_def settle_def)
qed

lemma select_out_of_range:
  "wf_game s \<Longrightarrow> \<not> (0 \<le> i \<and> i < 9) \<Longrightarrow> selectSquare s i = s"
  using wf_squares_length [of s]
  by (auto simp: selectSquare_def select_guard_def js_simps split: option.splits)

lemma previous_refines:
  assumes wf: "wf_game s"
  shows "\<exists>s'. on_event s ClickPrevious = Inr s' \<and> abs_game s' = settle (undo (abs_game s)) (abs_game s)"
proof (cases "gameIdx s < 1")
  case True
  with wf have "gameIdx s = 0" by (simp add: wf_game_def)
  then show ?thesis by (simp add: undo_def settle_def abs_game_def)
next
  case False
  with wf show ?thesis
    by (simp add: previous_ok undo_def settle_def abs_game_def nat_diff_distrib)
qed

lemma next_refines:
  assumes wf: "wf_game s"
  shows "\<exists>s'. on_event s ClickNext = Inr s' \<and> abs_game s' = settle (redo (abs_game s)) (abs_game s)"
proof (cases "int (length (gameHistory s)) \<le> gameIdx s + 1")
  case True
  with wf have "nat (gameIdx s) + 1 = length (gameHistory s)"
    unfolding wf_game_def by arith
  with True show ?thesis by (simp add: redo_def settle_def abs_game_def)
next
  case False
  with wf have "nat (gameIdx s) + 1 \<noteq> length (gameHistory s)"
    unfolding wf_game_def by arith
  with False wf show ?thesis
    by (simp add: next_ok redo_def settle_def abs_game_def nat_add_distrib wf_game_def)
qed

lemma component_simulates:
  assumes wf: "wf_game s" and ok: "event_ok e"
  shows "\<exists>s'. on_event s e = Inr s' \<and> abs_game s' = abs_step (abs_game s) e \<and>
              squares s' = currentBoard (abs_game s')"
proof -
  have "\<exists>s'. on_event s e = Inr s' \<and> abs_game s' = abs_step (abs_game s) e"
  proof (cases e)
    case (ClickSquare i)
    then show ?thesis
      using wf select_refines [OF wf] select_out_of_range [OF wf] by auto
  next
    case (ClickRestart r)
    with ok show ?thesis
      by (simp add: restart_def random_initial_halves newGame_def abs_game_def)
  qed (use previous_refines [OF wf] next_refines [OF wf] in simp_all)
  then obtain s' where s': "on_event s e = Inr s'" "abs_game s' = abs_step (abs_game s) e" by blast
  moreover have "wf_game s'" using wf s'(1) by (rule wf_on_event)
  ultimately show ?thesis using wf_current by metis
qed

text \<open>C17: the component refines the controller of the specification: from a well-formed state
  every click on an enabled or disabled control succeeds, and the new state read as a
  controller is the controller's operation on the old one (a move on squares 0 to 8 is
  \<open>playMove\<close>, \<open>previous\<close> is \<open>undo\<close>, \<open>next\<close> is \<open>redo\<close>, \<open>restart\<close> is
  \<open>newGame\<close> with the drawn mark, a refused operation changes nothing), with the squares on
  display equal to the controller's current board.\<close>

theorem component_refines:
  "wf_game s \<Longrightarrow> event_ok e \<Longrightarrow>
   \<exists>s'. on_event s e = Inr s' \<and> abs_game s' = abs_step (abs_game s) e \<and>
         squares s' = currentBoard (abs_game s')"
  by (rule component_simulates)

theorem component_refines_witness:
  "wf_game start_state \<and> event_ok (ClickSquare 4) \<and>
   (\<exists>s'. on_event start_state (ClickSquare 4) = Inr s' \<and>
         abs_game s' = abs_step (abs_game start_state) (ClickSquare 4) \<and>
         squares s' = currentBoard (abs_game s'))"
proof -
  have wf: "wf_game start_state" by (rule reachable_wf_game [OF mount_reachable])
  have ok: "event_ok (ClickSquare 4)" by simp
  show ?thesis using component_refines [OF wf ok] wf ok by blast
qed

text \<open>C18: a move the component refuses is refused for the reason the specification's
  \<open>playMove\<close> gives, checked in the same order: a winner first, then an occupied square,
  then a past snapshot on display.\<close>

theorem selectSquare_error_matches:
  "wf_game s \<Longrightarrow> 0 \<le> i \<Longrightarrow> i < 9 \<Longrightarrow>
   select_guard s i = (case playMove (abs_game s) (nat i) of Inl e \<Rightarrow> Some e | Inr _ \<Rightarrow> None)"
  by (rule guard_refines)

theorem selectSquare_error_matches_witness:
  "wf_game undone_state \<and> (0::int) \<le> 5 \<and> (5::int) < 9 \<and>
   select_guard undone_state 5 = Some NotAtLatestState \<and>
   playMove (abs_game undone_state) 5 = Inl NotAtLatestState"
proof -
  have wf: "wf_game undone_state" by (rule reachable_wf_game [OF sample_reachable])
  have g: "select_guard undone_state 5 = Some NotAtLatestState"
    by (simp add: game_eval)
  show ?thesis using selectSquare_error_matches [OF wf, of 5] wf g by (simp split: sum.splits)
qed

subsection \<open>The same reachable states\<close>

lemma mount_abs: "reachable \<lparr>squares = emptyBoard, initial = m, gameHistory = [emptyBoard], gameIdx = 0\<rparr> \<and>
  abs_game \<lparr>squares = emptyBoard, initial = m, gameHistory = [emptyBoard], gameIdx = 0\<rparr> = newGame m"
proof
  show "reachable \<lparr>squares = emptyBoard, initial = m, gameHistory = [emptyBoard], gameIdx = 0\<rparr>"
  proof (cases m)
    case MarkX
    then show ?thesis
      by (intro reachable.mounted [of "1 / 4"]) (simp_all add: mount_def generateRandomInitial_def js_get_def)
  next
    case MarkO
    then show ?thesis
      by (intro reachable.mounted [of "3 / 4"]) (simp_all add: mount_def generateRandomInitial_def js_get_def)
  qed
qed (simp add: abs_game_def newGame_def)

lemma reachable_abs: "reachable s \<Longrightarrow> ctrl_reachable (abs_game s)"
proof (induction rule: reachable.induct)
  case (mounted r s)
  then have "abs_game s = newGame (initial s)"
    by (auto simp: mount_def abs_game_def newGame_def split: option.splits)
  then show ?case by (simp add: ctrl_reachable.started)
next
  case (clicked s e s')
  from component_simulates [OF reachable_wf_game [OF clicked.hyps(1)] clicked.hyps(2)] clicked.hyps(3)
  have "abs_game s' = abs_step (abs_game s) e" by auto
  with clicked.IH clicked.hyps(2) show ?case by (simp add: ctrl_reachable.requested)
qed

lemma abs_reachable: "ctrl_reachable h \<Longrightarrow> \<exists>s. reachable s \<and> abs_game s = h"
proof (induction rule: ctrl_reachable.induct)
  case (started m)
  then show ?case using mount_abs by blast
next
  case (requested h e)
  then obtain s where s: "reachable s" "abs_game s = h" by blast
  from component_simulates [OF reachable_wf_game [OF s(1)] requested.hyps(2)] obtain s' where
    "on_event s e = Inr s'" "abs_game s' = abs_step (abs_game s) e" by blast
  with s requested.hyps(2) show ?case by (blast intro: reachable.clicked)
qed

text \<open>C26: read through \<open>abs_game\<close>, the states the component can reach are exactly
  the states the specification's controller can reach from a new game by requests: every
  reachable state of the component is one of the controller's, and every state of the
  controller is shown by some reachable state of the component.\<close>

theorem reachable_states_match:
  "ctrl_reachable h \<longleftrightarrow> (\<exists>s. reachable s \<and> abs_game s = h)"
  using abs_reachable reachable_abs by blast

theorem reachable_states_match_witness:
  "ctrl_reachable (newGame MarkO) \<and>
   reachable \<lparr>squares = emptyBoard, initial = MarkO, gameHistory = [emptyBoard], gameIdx = 0\<rparr> \<and>
   abs_game \<lparr>squares = emptyBoard, initial = MarkO, gameHistory = [emptyBoard], gameIdx = 0\<rparr> = newGame MarkO"
  using reachable_states_match [of "newGame MarkO"] mount_abs [of MarkO] ctrl_reachable.started [of MarkO]
  by blast

end
