(* ===== verification/Play.thy ===== *)
theory Play
  imports Abstract
begin

text \<open>
  Sessions of play on the \<open>Board\<close> component of \<open>src/src/Game.js\<close>: what a user can
  always still do. From any reachable state, clicking \<open>next\<close> as often as there are later
  snapshots brings the last snapshot back on display; a move on an empty square of an
  unfinished game is then accepted; and on the last snapshot every square refuses a click
  exactly when a line is complete or the board is full. The lemmas are about \<open>run\<close>, the
  sequence of clicks of \<open>History\<close>, so that they speak of the handlers as composed. The
  same theory shows that every well-formed state is reachable, that the history is only
  appended to, and that the players alternate.
\<close>

subsection \<open>The other player\<close>

definition other_mark :: "mark \<Rightarrow> mark" where
  "other_mark m = (case m of MarkX \<Rightarrow> MarkO | MarkO \<Rightarrow> MarkX)"

subsection \<open>Clicks in sequence\<close>

lemma run_append:
  "run s (xs @ ys) = (case run s xs of Inl e \<Rightarrow> Inl e | Inr t \<Rightarrow> run t ys)"
  by (induction xs arbitrary: s) (simp_all split: sum.split)

lemma run_next_to_head:
  assumes "wf_game s" and "nat (gameIdx s) + n = length (gameHistory s) - 1"
  shows "run s (replicate n ClickNext) =
    Inr (s\<lparr>squares := last (gameHistory s), gameIdx := int (length (gameHistory s)) - 1\<rparr>)"
  using assms
proof (induction n arbitrary: s)
  case 0
  then have "gameIdx s = int (length (gameHistory s)) - 1" and "squares s = last (gameHistory s)"
    by (auto simp: wf_game_def last_conv_nth)
  then show ?case by simp
next
  case (Suc n)
  then have lt: "gameIdx s + 1 < int (length (gameHistory s))" by (simp add: wf_game_def)
  define t where "t = s\<lparr>gameIdx := gameIdx s + 1, squares := gameHistory s ! nat (gameIdx s + 1)\<rparr>"
  have step: "on_event s ClickNext = Inr t"
    using Suc.prems(1) lt by (simp add: next_ok t_def)
  have "wf_game t" by (rule wf_next [OF Suc.prems(1) lt]) (simp add: next_ok [OF Suc.prems(1) lt] t_def)
  moreover have "nat (gameIdx t) + n = length (gameHistory t) - 1"
    using Suc.prems by (simp add: t_def wf_game_def nat_add_distrib)
  ultimately have "run t (replicate n ClickNext) =
      Inr (t\<lparr>squares := last (gameHistory t), gameIdx := int (length (gameHistory t)) - 1\<rparr>)"
    by (rule Suc.IH)
  with step show ?case by (simp add: t_def)
qed

lemma selectSquare_unchanged_iff: "selectSquare s i = s \<longleftrightarrow> select_guard s i \<noteq> None"
proof
  assume "selectSquare s i = s"
  then have "length (gameHistory (selectSquare s i)) = length (gameHistory s)" by simp
  then show "select_guard s i \<noteq> None" by (auto simp: selectSquare_def Let_def split: option.splits)
qed (auto simp: selectSquare_def)

lemma head_distance:
  "wf_game s \<Longrightarrow>
   nat (gameIdx s) + (length (gameHistory s) - 1 - nat (gameIdx s)) = length (gameHistory s) - 1"
proof -
  assume "wf_game s"
  then have "nat (gameIdx s) < length (gameHistory s)" by (simp add: wf_game_def nat_less_iff)
  then show ?thesis by arith
qed

lemma select_guard_at_head:
  assumes "wf_game s" and "gameIdx s + 1 = int (length (gameHistory s))" and "k < 9"
  shows "select_guard s (int k) = None \<longleftrightarrow> fst (calculateWinner (squares s)) = Null \<and> squares s ! k = None"
  using assms wf_squares_length [OF assms(1)] by (simp add: select_guard_def js_simps)

lemma full_board_iff: "length b = 9 \<Longrightarrow> (\<forall>k<9. b ! k \<noteq> None) \<longleftrightarrow> None \<notin> set b"
  by (auto simp: in_set_conv_nth)

subsection \<open>Every well-formed state is reachable\<close>

lemma wf_game_snoc:
  assumes "wf_game s" and "gameHistory s = h @ [b]" and "h \<noteq> []"
  shows "wf_game \<lparr>squares = last h, initial = initial s, gameHistory = h, gameIdx = int (length h) - 1\<rparr>"
  using assms
  by (auto simp: wf_game_def successively_append_iff nth_append last_conv_nth hd_append)

lemma wf_head_reachable:
  "wf_game s \<Longrightarrow> gameIdx s = int (length (gameHistory s)) - 1 \<Longrightarrow> reachable s"
proof (induction "gameHistory s" arbitrary: s rule: rev_induct)
  case Nil
  then show ?case by (simp add: wf_game_def)
next
  case (snoc b h)
  show ?case
  proof (cases "h = []")
    case True
    with snoc.prems snoc.hyps(2)[symmetric] have "s = \<lparr>squares = emptyBoard, initial = initial s, gameHistory = [emptyBoard], gameIdx = 0\<rparr>"
      by (cases s) (auto simp: wf_game_def)
    then show ?thesis using mount_abs by metis
  next
    case False
    let ?m = "initial s"
    define s0 where "s0 = \<lparr>squares = last h, initial = ?m, gameHistory = h, gameIdx = int (length h) - 1\<rparr>"
    have wf0: "wf_game s0" unfolding s0_def
      using wf_game_snoc [OF snoc.prems(1) snoc.hyps(2)[symmetric] False] .
    then have r0: "reachable s0" by (intro snoc.hyps(1)) (simp_all add: s0_def)
    from snoc.prems(1) snoc.hyps(2)[symmetric] False have "placed ?m (last h) b"
      by (simp add: wf_game_def successively_snoc)
    then obtain k where k: "k < length (last h)" "last h ! k = None"
      and b: "b = (last h)[k := Some (calculateNextValue (last h) ?m)]"
      by (auto simp: placed_def)
    from snoc.prems(1) snoc.hyps(2)[symmetric] False have "fst (calculateWinner (last h)) = Null"
      by (simp add: wf_game_def nth_append last_conv_nth)
    with k have "select_guard s0 (int k) = None"
      by (simp add: select_guard_def s0_def js_simps)
    then have "selectSquare s0 (int k) = s"
      using snoc.prems snoc.hyps(2)[symmetric] False b
      by (cases s) (simp add: selectSquare_def Let_def s0_def wf_game_def nth_append)
    then have "on_event s0 (ClickSquare (int k)) = Inr s" by simp
    then show ?thesis by (rule reachable.clicked [OF r0, rotated]) simp
  qed
qed

lemma previous_reachable:
  assumes "reachable s" and "1 \<le> gameIdx s"
  shows "reachable (s\<lparr>squares := gameHistory s ! nat (gameIdx s - 1), gameIdx := gameIdx s - 1\<rparr>)"
proof -
  have "on_event s ClickPrevious = Inr (s\<lparr>squares := gameHistory s ! nat (gameIdx s - 1), gameIdx := gameIdx s - 1\<rparr>)"
    using assms previous_ok [OF reachable_wf_game [OF assms(1)]] by simp
  then show ?thesis by (rule reachable.clicked [OF assms(1), rotated]) simp
qed

lemma wf_back_from_head:
  assumes "wf_game s" and "j < length (gameHistory s)"
  shows "reachable (s\<lparr>squares := gameHistory s ! j, gameIdx := int j\<rparr>)"
proof -
  let ?n = "length (gameHistory s)"
  have "j \<le> ?n - 1" using assms(2) by simp
  then show ?thesis
  proof (induction j rule: inc_induct)
    case base
    from assms show ?case
      by (intro wf_head_reachable) (auto simp: wf_game_def of_nat_diff)
  next
    case (step n)
    then have "reachable (s\<lparr>squares := gameHistory s ! Suc n, gameIdx := int (Suc n)\<rparr>)" by simp
    from previous_reachable [OF this] show ?case by simp
  qed
qed

lemma wf_reachable: "wf_game s \<Longrightarrow> reachable s"
proof -
  assume wf: "wf_game s"
  then have i: "0 \<le> gameIdx s" "nat (gameIdx s) < length (gameHistory s)"
    by (simp_all add: wf_game_def nat_less_iff)
  have "s\<lparr>squares := gameHistory s ! nat (gameIdx s), gameIdx := int (nat (gameIdx s))\<rparr> = s"
    using wf i by (cases s) (simp add: wf_game_def)
  with wf_back_from_head [OF wf i(2)] show "reachable s" by simp
qed


lemma on_event_history_grows:
  assumes "on_event s e = Inr t" and "\<forall>r. e \<noteq> ClickRestart r"
  shows "\<exists>bs. gameHistory t = gameHistory s @ bs \<and> length bs \<le> 1"
proof (cases e)
  case (ClickSquare i)
  with assms(1) show ?thesis
    by (cases "select_guard s i") (auto simp: selectSquare_def Let_def)
next
  case ClickPrevious
  with assms(1) show ?thesis by (auto simp: previous_def split: if_splits option.splits)
next
  case ClickNext
  with assms(1) show ?thesis by (auto simp: next'_def split: if_splits option.splits)
qed (use assms(2) in simp)

subsection \<open>Mark counts along the history\<close>

lemma turn_after_counts:
  assumes "count_list b (Some m) = (j + 1) div 2" and "count_list b (Some (other_mark m)) = j div 2"
  shows "turn_by_counts (count_list b (Some MarkX)) (count_list b (Some MarkO)) m =
    (if even j then m else other_mark m)"
  using assms by (cases m) (auto simp: turn_by_counts_def other_mark_def elim: oddE)

lemma wf_history_counts:
  assumes "wf_game s" and "j < length (gameHistory s)"
  shows "count_list (gameHistory s ! j) (Some (initial s)) = (j + 1) div 2 \<and>
    count_list (gameHistory s ! j) (Some (other_mark (initial s))) = j div 2"
  using assms(2)
proof (induction j)
  case 0
  from assms(1) have "gameHistory s ! 0 = emptyBoard" by (auto simp: wf_game_def simp flip: hd_conv_nth)
  then show ?case by (simp add: emptyBoard_list)
next
  case (Suc j)
  let ?h = "gameHistory s" and ?m = "initial s"
  from assms(1) have "successively (placed ?m) ?h" by (simp add: wf_game_def)
  from successively_nth [OF this Suc.prems] have "placed ?m (?h ! j) (?h ! Suc j)" .
  then obtain k where k: "k < length (?h ! j)" "?h ! j ! k = None"
    and step: "?h ! Suc j = (?h ! j)[k := Some (calculateNextValue (?h ! j) ?m)]"
    by (auto simp: placed_def)
  have len: "length (?h ! j) = 9"
    using wf_history_shape [OF assms(1)] Suc.prems by simp
  from Suc have ih: "count_list (?h ! j) (Some ?m) = (j + 1) div 2"
    "count_list (?h ! j) (Some (other_mark ?m)) = j div 2" by simp_all
  then have "calculateNextValue (?h ! j) ?m = (if even j then ?m else other_mark ?m)"
    using len by (simp add: next_value_counts turn_after_counts)
  with ih k show ?case unfolding step
    by (cases ?m) (auto simp: count_list_fill_empty other_mark_def elim: oddE evenE)
qed

subsection \<open>Liveness\<close>

text \<open>C20: from every reachable state, clicking \<open>next\<close> once for each later snapshot
  succeeds and puts the last snapshot on display, the history untouched.\<close>

theorem next_reaches_head:
  assumes "reachable s"
  shows "run s (replicate (length (gameHistory s) - 1 - nat (gameIdx s)) ClickNext) =
    Inr (s\<lparr>squares := last (gameHistory s), gameIdx := int (length (gameHistory s)) - 1\<rparr>)"
proof -
  from assms have wf: "wf_game s" by (rule reachable_wf_game)
  show ?thesis by (rule run_next_to_head [OF wf head_distance [OF wf]])

qed

theorem next_reaches_head_witness:
  "reachable undone_state \<and>
   run undone_state [ClickNext] =
   Inr \<lparr>squares = emptyBoard[4 := Some MarkX, 0 := Some MarkO], initial = MarkX,
     gameHistory = [emptyBoard, emptyBoard[4 := Some MarkX], emptyBoard[4 := Some MarkX, 0 := Some MarkO]],
     gameIdx = 2\<rparr>"
  using next_reaches_head [OF sample_reachable] sample_reachable by simp

text \<open>C21: the game can always be continued while it is unfinished: from every reachable
  state whose last snapshot has no line, clicking \<open>next\<close> up to the last snapshot and then an
  empty square of it is accepted, and appends that snapshot with the mark whose turn it is
  on the square.\<close>

theorem move_eventually_accepted:
  assumes "reachable s" and "fst (calculateWinner (last (gameHistory s))) = Null"
    and "k < 9" and "last (gameHistory s) ! k = None"
  shows "\<exists>s'. run s (replicate (length (gameHistory s) - 1 - nat (gameIdx s)) ClickNext @ [ClickSquare (int k)]) = Inr s' \<and>
    gameHistory s' = gameHistory s @ [(last (gameHistory s))[k := Some (calculateNextValue (last (gameHistory s)) (initial s))]] \<and>
    gameIdx s' = int (length (gameHistory s))"
proof -
  let ?h = "gameHistory s"
  define t where "t = s\<lparr>squares := last ?h, gameIdx := int (length ?h) - 1\<rparr>"
  from assms(1) have wf: "wf_game s" by (rule reachable_wf_game)
  then have ne: "?h \<noteq> []" by (simp add: wf_game_def)
  have run_t: "run s (replicate (length ?h - 1 - nat (gameIdx s)) ClickNext) = Inr t"
    unfolding t_def by (rule run_next_to_head [OF wf head_distance [OF wf]])
  have "nat (int (length ?h) - 1) = length ?h - 1"
    using ne by (cases ?h) simp_all
  then have "wf_game t"
    using wf ne by (simp add: t_def wf_game_def last_conv_nth)
  moreover have "gameIdx t + 1 = int (length (gameHistory t))"
    using ne by (simp add: t_def)
  ultimately have "select_guard t (int k) = None"
    using assms(2-4) by (simp add: select_guard_at_head t_def)
  then have "selectSquare t (int k) = t\<lparr>squares := (last ?h)[k := Some (calculateNextValue (last ?h) (initial s))],
      gameHistory := ?h @ [(last ?h)[k := Some (calculateNextValue (last ?h) (initial s))]],
      gameIdx := int (length ?h)\<rparr>"
    using ne by (simp add: selectSquare_def Let_def t_def)
  with run_t show ?thesis by (simp add: run_append t_def)
qed

theorem move_eventually_accepted_witness:
  "reachable undone_state \<and>
   fst (calculateWinner (emptyBoard[4 := Some MarkX, 0 := Some MarkO])) = Null \<and> (8::nat) < 9 \<and>
   emptyBoard[4 := Some MarkX, 0 := Some MarkO] ! 8 = None \<and>
   (\<exists>s'. run undone_state [ClickNext, ClickSquare 8] = Inr s' \<and>
     gameHistory s' = [emptyBoard, emptyBoard[4 := Some MarkX], emptyBoard[4 := Some MarkX, 0 := Some MarkO],
       emptyBoard[4 := Some MarkX, 0 := Some MarkO, 8 := Some MarkX]] \<and> gameIdx s' = 3)"
proof -
  have w: "fst (calculateWinner (emptyBoard[4 := Some MarkX, 0 := Some MarkO])) = Null"
    by (simp add: engine_eval)
  have e: "emptyBoard[4 := Some MarkX, 0 := Some MarkO] ! 8 = None"
    by (simp add: emptyBoard_list)
  have n: "calculateNextValue (emptyBoard[4 := Some MarkX, 0 := Some MarkO]) MarkX = MarkX"
    by (simp add: engine_eval)
  show ?thesis
    using move_eventually_accepted [OF sample_reachable, of 8] sample_reachable w e n by simp
qed

text \<open>C22: on the last snapshot the game is over exactly when it should be: every one of
  the nine squares refuses a click, leaving the state unchanged, exactly when a mark has
  three in a row or no square is empty.\<close>

theorem game_over_iff:
  assumes "reachable s" and "gameIdx s + 1 = int (length (gameHistory s))"
  shows "(\<forall>k<9. selectSquare s (int k) = s) \<longleftrightarrow>
    (\<exists>m. three_in_a_row (squares s) m) \<or> None \<notin> set (squares s)"
proof -
  from assms(1) have wf: "wf_game s" by (rule reachable_wf_game)
  then have len: "length (squares s) = 9" by (rule wf_squares_length)
  have "(\<forall>k<9. selectSquare s (int k) = s) \<longleftrightarrow>
      (\<forall>k<9. fst (calculateWinner (squares s)) \<noteq> Null \<or> squares s ! k \<noteq> None)"
    using select_guard_at_head [OF wf assms(2)] by (simp add: selectSquare_unchanged_iff)
  also have "\<dots> \<longleftrightarrow> fst (calculateWinner (squares s)) \<noteq> Null \<or> None \<notin> set (squares s)"
    using full_board_iff [OF len] by blast
  finally show ?thesis using winner_Null_iff [OF len] by blast
qed

theorem game_over_iff_witness:
  "reachable won_state \<and> (5::int) + 1 = 6 \<and>
   three_in_a_row (emptyBoard[0 := Some MarkX, 1 := Some MarkO, 3 := Some MarkX, 4 := Some MarkO, 6 := Some MarkX]) MarkX \<and>
   selectSquare won_state 8 =
   won_state"
proof -
  have x: "three_in_a_row (emptyBoard[0 := Some MarkX, 1 := Some MarkO, 3 := Some MarkX, 4 := Some MarkO, 6 := Some MarkX]) MarkX"
    by (simp add: three_in_a_row_def cell_def emptyBoard_list ex_less_3_nat all_less_3_nat)
  have "\<forall>k<9. selectSquare won_state (int k) = won_state"
    using game_over_iff [OF winning_reachable] x by auto
  note all = this
  show ?thesis using winning_reachable x spec [OF all, of 8] by simp
qed

text \<open>C23: the invariant is exact: a state of the component is reachable from the first
  render by clicks if and only if it satisfies \<open>wf_game\<close>. Every history of moves
  made in turn on empty squares, with no line before the last snapshot, can be played, and
  every snapshot of it put on display with \<open>previous\<close>.\<close>

theorem reachable_iff_wf: "reachable s \<longleftrightarrow> wf_game s"
  using reachable_wf_game wf_reachable by blast

theorem reachable_iff_wf_witness:
  "\<not> wf_game \<lparr>squares = emptyBoard[0 := Some MarkX], initial = MarkX, gameHistory = [emptyBoard], gameIdx = 0\<rparr> \<and>
   \<not> reachable \<lparr>squares = emptyBoard[0 := Some MarkX], initial = MarkX, gameHistory = [emptyBoard], gameIdx = 0\<rparr>"
proof -
  have "\<not> wf_game \<lparr>squares = emptyBoard[0 := Some MarkX], initial = MarkX, gameHistory = [emptyBoard], gameIdx = 0\<rparr>"
    by (simp add: wf_game_def emptyBoard_list)
  then show ?thesis
    using reachable_iff_wf [of "\<lparr>squares = emptyBoard[0 := Some MarkX], initial = MarkX, gameHistory = [emptyBoard], gameIdx = 0\<rparr>"]
    by simp
qed

text \<open>C24: the history is append-only: along any sequence of clicks without
  \<open>restart\<close>, no snapshot is removed or changed; the history only grows at its end, by at
  most one snapshot per click.\<close>

theorem history_append_only:
  "run s es = Inr s' \<Longrightarrow> list_all (\<lambda>e. \<forall>r. e \<noteq> ClickRestart r) es \<Longrightarrow>
   \<exists>bs. gameHistory s' = gameHistory s @ bs \<and> length bs \<le> length es"
proof (induction es arbitrary: s)
  case Nil
  then show ?case by simp
next
  case (Cons e es)
  then obtain t where t: "on_event s e = Inr t" and rest: "run t es = Inr s'"
    by (auto split: sum.splits)
  from on_event_history_grows [OF t] Cons.prems(2) obtain bs where
    "gameHistory t = gameHistory s @ bs" "length bs \<le> 1" by auto
  moreover from Cons.IH [OF rest] Cons.prems(2) obtain cs where
    "gameHistory s' = gameHistory t @ cs" "length cs \<le> length es" by auto
  ultimately show ?case by (intro exI [of _ "bs @ cs"]) simp
qed

theorem history_append_only_witness:
  "run start_state [ClickSquare 4, ClickPrevious] =
     Inr \<lparr>squares = emptyBoard, initial = MarkX, gameHistory = [emptyBoard, emptyBoard[4 := Some MarkX]], gameIdx = 0\<rparr> \<and>
   list_all (\<lambda>e. \<forall>r. e \<noteq> ClickRestart r) [ClickSquare 4, ClickPrevious] \<and>
   (\<exists>bs. [emptyBoard, emptyBoard[4 := Some MarkX]] = [emptyBoard] @ bs \<and> length bs \<le> 2)"
proof -
  have r: "run start_state [ClickSquare 4, ClickPrevious] =
     Inr \<lparr>squares = emptyBoard, initial = MarkX, gameHistory = [emptyBoard, emptyBoard[4 := Some MarkX]], gameIdx = 0\<rparr>"
    by (simp add: game_eval)
  show ?thesis using history_append_only [OF r] r by simp
qed

text \<open>C25: the players alternate, the starting mark first: in every reachable state,
  snapshot \<open>j + 1\<close> of the history is snapshot \<open>j\<close> with one empty square taken by
  the starting mark when \<open>j\<close> is even and by the other mark when \<open>j\<close> is odd.\<close>

theorem turns_alternate:
  assumes "reachable s" and "Suc j < length (gameHistory s)"
  shows "\<exists>k. gameHistory s ! j ! k = None \<and>
    gameHistory s ! Suc j = (gameHistory s ! j)[k := Some (if even j then initial s else other_mark (initial s))]"
proof -
  let ?h = "gameHistory s" and ?m = "initial s"
  from assms(1) have wf: "wf_game s" by (rule reachable_wf_game)
  then have "successively (placed ?m) ?h" by (simp add: wf_game_def)
  from successively_nth [OF this assms(2)] obtain k where k: "?h ! j ! k = None"
    and step: "?h ! Suc j = (?h ! j)[k := Some (calculateNextValue (?h ! j) ?m)]"
    by (auto simp: placed_def)
  have len: "length (?h ! j) = 9"
    using wf_history_shape [OF wf] assms(2) by simp
  from wf_history_counts [OF wf] assms(2) have
    "count_list (?h ! j) (Some ?m) = (j + 1) div 2" "count_list (?h ! j) (Some (other_mark ?m)) = j div 2"
    by simp_all
  then have "calculateNextValue (?h ! j) ?m = (if even j then ?m else other_mark ?m)"
    using len by (simp add: next_value_counts turn_after_counts)
  with k step show ?thesis by auto
qed

theorem turns_alternate_witness:
  "reachable won_state \<and> Suc 1 < 6 \<and>
   (\<exists>k. emptyBoard[0 := Some MarkX] ! k = None \<and>
     emptyBoard[0 := Some MarkX, 1 := Some MarkO] = (emptyBoard[0 := Some MarkX])[k := Some MarkO])"
  using turns_alternate [OF winning_reachable, of 1] winning_reachable by (simp add: other_mark_def)

end
