(* ===== verification/View.thy ===== *)
theory View
  imports Abstract
begin

text \<open>
  What the \<open>Board\<close> component of \<open>src/src/Game.js\<close> renders (lines 51--107): the
  status line, the nine square buttons of \<open>renderSquare\<close>, the \<open>disabled\<close> attributes of
  \<open>previous\<close> and \<open>next\<close>, and the panel of state parameters. React prints a string
  child as its text, a number as its decimal digits, and nothing for \<open>null\<close> and
  \<open>undefined\<close>; an array child is printed element by element. The lemmas show that the
  view is the specification's controller on display: the buttons show its current board,
  and a navigation button is disabled exactly when the controller would refuse it.
\<close>

subsection \<open>The rendered view\<close>

record view =
  status_text :: string
  square_labels :: "string list"
  previous_disabled :: bool
  next_disabled :: bool
  history_panel :: string
  length_panel :: int
  index_panel :: int
  initial_panel :: string

text \<open>A square as a child of a JSX element: \<open>null\<close> prints nothing, a mark its letter.\<close>

definition cell_text :: "square \<Rightarrow> string" where
  "cell_text c = (case c of None \<Rightarrow> [] | Some m \<Rightarrow> mark_str m)"

text \<open>\<open>{squares[i]}\<close>: a read past the end is \<open>undefined\<close> and prints nothing.\<close>

definition jsx_square :: "square option \<Rightarrow> string" where
  "jsx_square v = (case v of None \<Rightarrow> [] | Some c \<Rightarrow> cell_text c)"

definition renderSquare :: "game \<Rightarrow> int \<Rightarrow> string" where
  "renderSquare s i = jsx_square (js_get (squares s) i)"

text \<open>\<open>{gameHistory[gameIdx-1]}\<close>: an array of squares, printed one after another.\<close>

definition jsx_board :: "board option \<Rightarrow> string" where
  "jsx_board v = (case v of None \<Rightarrow> [] | Some b \<Rightarrow> concat (map cell_text b))"

definition render :: "game \<Rightarrow> view" where
  "render s =
     \<lparr>status_text = board_status s,
      square_labels = map (renderSquare s) [0..8],
      previous_disabled = gameIdx s < 1,
      next_disabled = gameIdx s + 1 \<ge> int (length (gameHistory s)),
      history_panel = jsx_board (js_get (gameHistory s) (gameIdx s - 1)),
      length_panel = int (length (gameHistory s)),
      index_panel = gameIdx s,
      initial_panel = mark_str (initial s)\<rparr>"

subsection \<open>The view shows the controller\<close>

lemma renderSquare_labels:
  assumes "length (squares s) = 9"
  shows "map (renderSquare s) [0..8] = map cell_text (squares s)"
proof -
  have "map (renderSquare s) [0..8] = map jsx_square (map (js_get (squares s)) [0..int (length (squares s)) - 1])"
    using assms by (simp add: renderSquare_def)
  then show ?thesis by (simp add: js_get_upto jsx_square_def)
qed

text \<open>C19: in every reachable state the view shows the specification's controller: the
  nine buttons show its current board, the panel its history length and cursor, and the
  \<open>previous\<close> and \<open>next\<close> buttons are disabled exactly when \<open>undo\<close> and \<open>redo\<close>
  would refuse with \<open>AtStart\<close> and \<open>AtEnd\<close>.\<close>

theorem render_shows_controller:
  assumes "reachable s"
  shows "square_labels (render s) = map cell_text (currentBoard (abs_game s)) \<and>
    length_panel (render s) = int (length (hist (abs_game s))) \<and>
    index_panel (render s) = int (cursor (abs_game s)) \<and>
    (previous_disabled (render s) \<longleftrightarrow> undo (abs_game s) = Inl AtStart) \<and>
    (next_disabled (render s) \<longleftrightarrow> redo (abs_game s) = Inl AtEnd)"
proof -
  from assms have wf: "wf_game s" by (rule reachable_wf_game)
  then have len: "length (squares s) = 9" by (rule wf_squares_length)
  from wf have i: "0 \<le> gameIdx s" "gameIdx s < int (length (gameHistory s))"
    by (simp_all add: wf_game_def)
  show ?thesis
    using renderSquare_labels [OF len] wf_current [OF wf] i
    by (auto simp: render_def abs_game_def undo_def redo_def)
qed

theorem render_shows_controller_witness:
  "reachable start_state \<and>
   square_labels (render start_state) =
     map cell_text (currentBoard (abs_game start_state)) \<and>
   previous_disabled (render start_state) \<and>
   undo (abs_game start_state) = Inl AtStart"
  using render_shows_controller [OF mount_reachable] mount_reachable
  by (simp add: render_def abs_game_def undo_def)

end
