(* ===== verification/Persist.thy ===== *)
theory Persist
  imports View
begin

text \<open>
  The state of the \<open>Board\<close> component of \<open>src/src/Game.js\<close> crosses sessions through
  \<open>useLocalStorage\<close> (lines 10--13): whatever was stored is what the next first render
  starts from. The specification (section 6) puts the storage outside the core and gives
  only its contract: the collaborator stores the history, the cursor and the starting mark
  as opaque state and gives them back. Whatever a stored state holds, the code assumes its
  shape: \<open>typed_game\<close> (theory \<open>History\<close>), boards of nine squares, a non-empty history
  and an index into it. This theory shows that the assumption is enough: from every state of
  that shape every sequence of clicks runs without reading \<open>undefined\<close> and keeps the
  shape, even when the history was not produced by play (progress and preservation, as for a
  type system).
\<close>

text \<open>A stored state the component cannot reach: two X marks and O to move on a history
  that does not start with the empty board. It has the stored shape all the same.\<close>

abbreviation tampered_state :: game where
  "tampered_state \<equiv> \<lparr>squares = emptyBoard[0 := Some MarkX, 1 := Some MarkX], initial = MarkO,
     gameHistory = [emptyBoard[0 := Some MarkX, 1 := Some MarkX]], gameIdx = 0\<rparr>"

subsection \<open>Type soundness of sessions\<close>

text \<open>C27: progress: from a state of the stored shape, every sequence of clicks (restarts
  drawing from \<open>[0, 1)\<close>) runs to its end without reading \<open>undefined\<close>, and ends in a
  state of that shape.\<close>

theorem typed_run_sound:
  "typed_game s \<Longrightarrow> list_all event_ok es \<Longrightarrow> \<exists>s'. run s es = Inr s' \<and> typed_game s'"
proof (induction es arbitrary: s)
  case (Cons e es)
  from typed_on_event_defined [OF Cons.prems(1)] Cons.prems(2) obtain t where t: "on_event s e = Inr t"
    by auto
  with Cons.prems have "typed_game t" by (blast intro: typed_on_event)
  with Cons.IH Cons.prems(2) t show ?case by simp
qed simp

theorem typed_run_sound_witness:
  "typed_game tampered_state \<and>
   list_all event_ok [ClickNext, ClickPrevious, ClickSquare 0] \<and>
   (\<exists>s'. run tampered_state
       [ClickNext, ClickPrevious, ClickSquare 0] = Inr s' \<and> typed_game s')"
proof -
  have t: "typed_game tampered_state"
    by (simp add: typed_game_def emptyBoard_def)
  have ok: "list_all event_ok [ClickNext, ClickPrevious, ClickSquare 0]" by simp
  show ?thesis using typed_run_sound [OF t ok] t ok by simp
qed

end
