(* ===== verification/Markup.thy ===== *)
theory Markup
  imports View
begin

text \<open>
  The element tree the \<open>Board\<close> component of \<open>src/src/Game.js\<close> returns
  (lines 51--107), inside the wrappers \<open>Game\<close> and \<open>App\<close> (lines 176--190). An element
  has a tag, its attributes in the order written (\<open>className\<close>, \<open>disabled\<close>,
  \<open>onClick\<close>) and its children; a text child is the string React prints. JSX drops the
  whitespace at the start and end of each line of text, so \<open>Len: \<close> at the end of line
  94 is printed \<open>Len:\<close>; numbers are printed as their decimal digits. A click on a button
  runs its \<open>onClick\<close> handler unless the button is disabled. The theorem compares the page
  with the specification's controller (\<open>Abstract\<close>): the page has one button for each
  command of the controller, and a click on any of them does what the command does.
\<close>

subsection \<open>Elements\<close>

datatype handler = OnSelect int | OnRestart | OnPrevious | OnNext

datatype attr = ClassName string | Disabled bool | OnClick handler

datatype jsx = Elem string "attr list" "jsx list" | Text string

text \<open>\<open>String(n)\<close> for an integer \<open>n\<close>: its decimal digits, with a sign when negative.\<close>

fun nat_str :: "nat \<Rightarrow> string" where
  "nat_str n = (if n < 10 then [''0123456789'' ! n] else nat_str (n div 10) @ [''0123456789'' ! (n mod 10)])"

definition int_str :: "int \<Rightarrow> string" where
  "int_str i = (if i < 0 then ''-'' @ nat_str (nat (- i)) else nat_str (nat i))"

subsection \<open>The tree of a render\<close>

definition renderSquare_el :: "game \<Rightarrow> int \<Rightarrow> jsx" where
  "renderSquare_el s i = Elem ''button'' [ClassName ''square'', OnClick (OnSelect i)] [Text (renderSquare s i)]"

definition board_el :: "game \<Rightarrow> jsx" where
  "board_el s =
     Elem ''div'' [ClassName ''container''] [
       Elem ''div'' [] [
         Elem ''div'' [ClassName ''status''] [Text (board_status s)],
         Elem ''div'' [ClassName ''board-row''] [renderSquare_el s 0, renderSquare_el s 1, renderSquare_el s 2],
         Elem ''div'' [ClassName ''board-row''] [renderSquare_el s 3, renderSquare_el s 4, renderSquare_el s 5],
         Elem ''div'' [ClassName ''board-row''] [renderSquare_el s 6, renderSquare_el s 7, renderSquare_el s 8],
         Elem ''button'' [ClassName ''restart'', OnClick OnRestart] [Text ''restart''],
         Elem ''br'' [] [],
         Elem ''button'' [Disabled (gameIdx s < 1), ClassName ''previous'', OnClick OnPrevious] [Text ''previous''],
         Elem ''button'' [Disabled (gameIdx s + 1 \<ge> int (length (gameHistory s))), ClassName ''next'', OnClick OnNext]
           [Text ''next'']],
       Elem ''div'' [ClassName ''state-params''] [
         Elem ''div'' [] [Text ''GameHistory:'', Text (jsx_board (js_get (gameHistory s) (gameIdx s - 1))),
           Elem ''br'' [] [], Text ''Len:'', Text (int_str (int (length (gameHistory s))))],
         Elem ''div'' [] [Text ''GameIdx:'', Text (int_str (gameIdx s))],
         Elem ''div'' [] [Text ''Initial:'', Text (mark_str (initial s))]]]"

definition game_el :: "game \<Rightarrow> jsx" where
  "game_el s = Elem ''div'' [ClassName ''game''] [Elem ''div'' [ClassName ''game-board''] [board_el s]]"

definition app_el :: "game \<Rightarrow> jsx" where
  "app_el s = game_el s"

subsection \<open>Clicks\<close>

fun handler_of :: "jsx \<Rightarrow> handler option" where
  "handler_of (Elem _ as _) = (case [h. OnClick h \<leftarrow> as] of h # _ \<Rightarrow> Some h | [] \<Rightarrow> None)"
| "handler_of (Text _) = None"

fun disabled_of :: "jsx \<Rightarrow> bool" where
  "disabled_of (Elem _ as _) = (Disabled True \<in> set as)"
| "disabled_of (Text _) = False"

text \<open>A click on an element: nothing when it is disabled or has no handler; otherwise the
  handler its \<open>onClick\<close> calls (lines 53, 78, 82, 85), a restart with the random number
  given.\<close>

definition click :: "game \<Rightarrow> real \<Rightarrow> jsx \<Rightarrow> js_error + game" where
  "click s r b =
     (if disabled_of b then Inr s
      else case handler_of b of
        None \<Rightarrow> Inr s
      | Some (OnSelect i) \<Rightarrow> Inr (selectSquare s i)
      | Some OnRestart \<Rightarrow> restart s r
      | Some OnPrevious \<Rightarrow> previous s
      | Some OnNext \<Rightarrow> next' s)"

text \<open>The request of the specification's command surface (section 6) a button stands for:
  \<open>playMove\<close> on a square, \<open>restart\<close>, \<open>undo\<close>, \<open>redo\<close>.\<close>

fun request_of :: "real \<Rightarrow> handler \<Rightarrow> event" where
  "request_of r (OnSelect i) = ClickSquare i"
| "request_of r OnRestart = ClickRestart r"
| "request_of r OnPrevious = ClickPrevious"
| "request_of r OnNext = ClickNext"

text \<open>The buttons of a tree, in document order.\<close>

fun with_tag :: "string \<Rightarrow> jsx \<Rightarrow> jsx list" where
  "with_tag g (Text _) = []"
| "with_tag g (Elem t as cs) = (if t = g then [Elem t as cs] else []) @ concat (map (with_tag g) cs)"

subsection \<open>The buttons of the page\<close>

lemmas markup_defs = app_el_def game_el_def board_el_def renderSquare_el_def

lemma page_button_handlers:
  "map handler_of (with_tag ''button'' (app_el s)) =
     map Some (map OnSelect [0..8] @ [OnRestart, OnPrevious, OnNext])"
  by (simp add: markup_defs upto.simps)

lemma page_button_click:
  assumes "b \<in> set (with_tag ''button'' (app_el s))"
  shows "\<exists>h. handler_of b = Some h \<and> click s r b = on_event s (request_of r h)"
  using assms by (auto simp: markup_defs click_def upto.simps not_less)

subsection \<open>The page implements the controller\<close>

text \<open>C28: the page offers the specification's whole command surface and each button does
  what the controller does: in every reachable state its buttons, in document order, are the
  nine squares, restart, previous and next, and a click on any of them (a restart drawing
  from \<open>[0, 1)\<close>) succeeds, the \<open>disabled\<close> attribute and the handler of the element tree
  included, and leaves the state that, read as a controller, is the controller's
  \<open>playMove\<close>, \<open>newGame\<close>, \<open>undo\<close> or \<open>redo\<close> on the old one.\<close>

theorem page_refines_controller:
  assumes "reachable s" and "0 \<le> r" and "r < 1"
  shows "map handler_of (with_tag ''button'' (app_el s)) =
      map Some (map OnSelect [0..8] @ [OnRestart, OnPrevious, OnNext]) \<and>
    (\<forall>b \<in> set (with_tag ''button'' (app_el s)). \<exists>h s'. handler_of b = Some h \<and>
       click s r b = Inr s' \<and> abs_game s' = abs_step (abs_game s) (request_of r h))"
proof -
  from assms(1) have wf: "wf_game s" by (rule reachable_wf_game)
  have "\<exists>h s'. handler_of b = Some h \<and> click s r b = Inr s' \<and> abs_game s' = abs_step (abs_game s) (request_of r h)"
    if "b \<in> set (with_tag ''button'' (app_el s))" for b
  proof -
    from page_button_click [OF that] obtain h where h: "handler_of b = Some h"
      and c: "click s r b = on_event s (request_of r h)" by blast
    have "event_ok (request_of r h)" using assms(2,3) by (cases h) simp_all
    from component_simulates [OF wf this] h c show ?thesis by auto
  qed
  with page_button_handlers show ?thesis by blast
qed

theorem page_refines_controller_witness:
  "reachable start_state \<and> (0::real) \<le> 1 / 4 \<and> (1 / 4 :: real) < 1 \<and>
   map handler_of (with_tag ''button'' (app_el start_state)) =
     map Some (map OnSelect [0..8] @ [OnRestart, OnPrevious, OnNext]) \<and>
   (\<exists>s'. click start_state (1 / 4)
      (Elem ''button'' [Disabled (gameIdx start_state < 1), ClassName ''previous'', OnClick OnPrevious] [Text ''previous''])
      = Inr s' \<and> abs_game s' = abs_step (abs_game start_state) ClickPrevious)"
proof -
  have q: "(0::real) \<le> 1 / 4" "(1 / 4 :: real) < 1" by simp_all
  have "Elem ''button'' [Disabled (gameIdx start_state < 1), ClassName ''previous'', OnClick OnPrevious] [Text ''previous'']
      \<in> set (with_tag ''button'' (app_el start_state))"
    by (simp add: markup_defs)
  with page_refines_controller [OF mount_reachable q] mount_reachable q show ?thesis by fastforce
qed

end
