(* ===== verification/Spec2Isabelle.thy ===== *)
theory Spec2Isabelle
  imports Play Persist Markup
begin

text \<open>
  \<^bold>\<open>A verified model of the tic-tac-toe game of \<open>src/src/Game.js\<close>.\<close>

  \<^bold>\<open>The program.\<close> \<open>Game.js\<close> is one React module. Its logic has two parts.
  \<^item> The board engine, pure functions called on every render: \<open>calculateNextValue\<close>
    (lines 110--125) gives the mark whose turn it is from the numbers of X and O marks and the
    starting mark; \<open>generateRandomInitial\<close> (127--129) draws the starting mark from
    \<open>Math.random()\<close>; \<open>calculateWinner\<close> (131--166) searches rows, columns and the two
    diagonals for three equal marks and returns the mark and two end points;
    \<open>calculateStatus\<close> (168--174) builds the status line.
  \<^item> The \<open>Board\<close> component (lines 9--108), which keeps four values in
    \<open>useLocalStorage\<close> hooks (lines 10--13): the squares on display, the starting mark,
    the list of snapshots and the index of the snapshot on display. Its handlers
    \<open>selectSquare\<close>, \<open>previous\<close>, \<open>next\<close> and \<open>restart\<close> (21--49) are called by
    the rendered buttons (51--87), of which \<open>previous\<close> and \<open>next\<close> can be disabled.
  The component calls the engine: each render recomputes winner, next mark and status from
  the squares (15--17), and \<open>selectSquare\<close> refuses a move when the engine reports a winner.

  \<^bold>\<open>The theories.\<close>
  \<^item> \<open>Prelude\<close>: the JavaScript values the code relies on (\<open>js_get\<close>: an array read,
    \<open>undefined\<close> out of range; \<open>js_num\<close>: a boolean as the number the bitwise \<open>&\<close>
    combines; \<open>first_hit\<close>: a \<open>for\<close> loop with an early \<open>return\<close>) and shared list
    lemmas.
  \<^item> \<open>Board\<close>: the engine. A board is a list of nine \<open>mark option\<close> (\<open>null\<close>,
    \<open>'X'\<close>, \<open>'O'\<close>), a read of a square the \<open>jsval\<close> \<open>Undefined\<close>, \<open>Null\<close> or
    \<open>Str m\<close>, compared as \<open>===\<close> compares them. \<open>calculateNextValue\<close> keeps the two
    nested loops as folds over \<open>[0..rows - 1]\<close> and \<open>[0..cols - 1]\<close>;
    \<open>calculateWinner\<close> is \<open>horizontal_hit\<close> and \<open>vertical_hit\<close> (one loop iteration
    each, run by \<open>first_hit\<close>), then \<open>diagonal_hit\<close>, with the index arithmetic of the
    code on \<open>rows = cols = 3\<close>. The reference specifications are \<open>win_lines\<close> and
    \<open>line_hit\<close> (the eight lines in the code's order), \<open>three_in_a_row\<close> (lines stated
    on coordinates) and \<open>turn_by_counts\<close>.
  \<^item> \<open>History\<close>: the component as the record \<open>game\<close>, the handlers as functions
    (\<open>next\<close> is \<open>next'\<close>, a keyword of Isabelle being in the way), errors as values of
    \<open>js_error\<close> (a snapshot or a mark read as \<open>undefined\<close>), the clicks as the
    datatype \<open>event\<close> and \<open>on_event\<close>, the reachable states as the inductive predicate
    \<open>reachable\<close>, and the invariant \<open>wf_game\<close>. \<open>session\<close> runs a list of clicks
    from the first render.
  \<^item> \<open>Abstract\<close>: the history controller of the specification (section 4.2) as the record
    \<open>controller\<close> with \<open>playMove\<close>, \<open>undo\<close>, \<open>redo\<close> and \<open>newGame\<close> returning
    error values, the abstraction \<open>abs_game\<close> from the component's state, and the
    simulation of each click by the controller's operation (\<open>component_refines\<close>);
    the controller's reachable states \<open>ctrl_reachable\<close> are exactly the component's read
    through \<open>abs_game\<close> (\<open>reachable_states_match\<close>).
  \<^item> \<open>View\<close>: what a render shows (lines 51--107) as the record \<open>view\<close> built by
    \<open>render\<close>: the status line, the nine labels of \<open>renderSquare\<close>, the
    \<open>disabled\<close> attributes and the panel of state parameters, printed as React prints
    strings, numbers, \<open>null\<close> and \<open>undefined\<close>.
  \<^item> \<open>Play\<close>: sessions of clicks (\<open>run\<close>): every well-formed state is reachable,
    the history is append-only, and what a user can always still do.
  \<^item> \<open>Persist\<close>: the storage boundary of the specification (section 6): sessions
    resumed from any stored state of the shape \<open>typed_game\<close> of \<open>History\<close>.
  \<^item> \<open>Markup\<close>: the element tree of \<open>Board\<close>, \<open>Game\<close> and \<open>App\<close> (lines 51--107,
    176--190) as the datatype \<open>jsx\<close>, with class names, \<open>disabled\<close> and \<open>onClick\<close>
    attributes, and \<open>click\<close>, a click on one of its elements.
  \<^item> This theory: the status line, which needs the engine and the component together.

  \<^bold>\<open>What is proved.\<close> The engine: \<open>calculateWinner\<close> tests exactly the eight lines in
  the code's order (\<open>calculateWinner_equiv\<close>), is sound (a reported winner owns the
  reported line) and complete on nine squares; \<open>calculateNextValue\<close> is the count rule;
  \<open>generateRandomInitial\<close> always draws a mark, X on the lower half of \<open>[0, 1)\<close>.
  The component: \<open>wf_game\<close> holds in every reachable state (\<open>reachable_wf\<close>, by rule
  induction after one preservation lemma per handler); hence the mark counts of the board
  on display differ by at most one, at most one mark has a line, a session holds at most ten
  snapshots, and no enabled click reads \<open>undefined\<close>. Conversely every state satisfying
  \<open>wf_game\<close> is reachable (\<open>reachable_iff_wf\<close>: the moves of its history are played in
  order from a first render that drew its starting mark, then \<open>previous\<close> brings its
  snapshot on display), so the invariant describes the reachable states exactly. Clicks
  other than \<open>restart\<close> only append to the history, and along it the players alternate,
  the starting mark first (\<open>turns_alternate\<close>, from the mark counts of each
  snapshot). \<open>selectSquare_accepts\<close> characterises when a move is taken; undo after a move and redo after an undo are exact
  round trips; \<open>restart\<close> returns to a fresh game. The controller: the component refines
  it click by click, and refuses a move for the reason \<open>playMove\<close> gives; the rendered view
  shows the controller's current board, and its navigation buttons are disabled exactly when
  \<open>undo\<close> or \<open>redo\<close> would refuse. Liveness: from every reachable state clicking
  \<open>next\<close> brings back the last snapshot, after which any empty square of an unfinished game
  takes a move; on the last snapshot all nine squares refuse exactly when a line is complete
  or the board is full. Persistence: every sequence of clicks from a stored state of the
  shape the code assumes runs without reading \<open>undefined\<close> and keeps that shape
  (\<open>typed_run_sound\<close>), even for a history not produced by play. Rendering: the page
  has one button for each command of the controller, and a click on any of them, with its
  \<open>disabled\<close> attribute, does what the command does (\<open>page_refines_controller\<close>).
  Here: the status line on every reachable state (\<open>board_status_reachable\<close>).

  \<^bold>\<open>Modelling choices.\<close> The board has the fixed size \<open>rows = cols = 3\<close> of lines 5--6.
  Indices are \<open>int\<close>, as JavaScript numbers, and \<open>gameIdx\<close> may in principle become
  negative. The random number is an argument; \<open>reachable\<close> and \<open>event_ok\<close> take it from
  \<open>[0, 1)\<close>, the range of \<open>Math.random()\<close>. React's batching of the \<open>set\<close> calls is
  modelled by reading every value from the state before the handler's updates, as the
  closures of one render do. Disabled buttons ignore clicks. No fuel is needed: the code's
  loops run over the fixed ranges \<open>0..rows - 1\<close> and \<open>0..cols - 1\<close> and become folds
  or \<open>first_hit\<close> over those lists, \<open>run\<close> recurses on the list of clicks, and the number of \<open>next\<close> clicks that reaches the last
  snapshot is computed from the state, so every function of the model is total.

  \<^bold>\<open>Not modelled.\<close> The style sheet \<open>style.css\<close> and the \<open>useLocalStorage\<close>
  hook, neither of which is in the repository. The hook's behaviour on a missing key (the
  \<open>undefined\<close> default of line 12) and whether it writes the default back are not given
  by the specification either, so only its contract is modelled, in \<open>Persist\<close>. A session
  starts from empty storage, where every hook returns its default value, and
  \<open>localStorage.removeItem\<close> in \<open>restart\<close> is a storage effect only. The hook call of
  line 12 passes the default history as its key and no default; the model gives it the
  default the other hooks' pattern intends, \<open>[emptyBoard]\<close>. Every property stated for
  reachable states rests on this choice for the first render; the states after a
  \<open>restart\<close> (line 48 sets the history explicitly) do not depend on it.
\<close>


section \<open>The status line\<close>

lemmas status_eval = board_status_def calculateStatus_def js_truthy_def js_str_def mark_str_def

text \<open>C12: on every reachable state the status line names the mark that has
  three in a row, else reports the scratch game when all nine squares are taken, else names
  the mark the count rule gives the next move to.\<close>

theorem board_status_reachable:
  assumes "reachable s"
  shows "board_status s =
    (if three_in_a_row (squares s) MarkX then ''Winner: X''
     else if three_in_a_row (squares s) MarkO then ''Winner: O''
     else if list_all (\<lambda>v. v \<noteq> None) (squares s) then ''Scratch: Cat's game''
     else ''Next player: '' @ mark_str (turn_by_counts (count_list (squares s) (Some MarkX))
                                         (count_list (squares s) (Some MarkO)) (initial s)))"
proof -
  have wf: "wf_game s" using assms by (rule reachable_wf_game)
  then have len: "length (squares s) = 9"
    using wf_history_shape wf_squares_in_history by blast
  have next_mark: "calculateNextValue (squares s) (initial s) =
      turn_by_counts (count_list (squares s) (Some MarkX)) (count_list (squares s) (Some MarkO)) (initial s)"
    using len by (simp add: next_value_counts)
  from winner_result_cases [OF len] show ?thesis
  proof
    assume "fst (calculateWinner (squares s)) = Null"
    moreover from this have "\<forall>m. \<not> three_in_a_row (squares s) m"
      using winner_Null_iff [OF len] by simp
    ultimately show ?thesis by (simp add: status_eval next_mark)
  next
    assume "\<exists>m l. calculateWinner (squares s) = (Str m, Some l)"
    then obtain m l where w: "calculateWinner (squares s) = (Str m, Some l)" by blast
    then have "three_in_a_row (squares s) m" by (blast dest: winner_owns_line)
    moreover have "three_in_a_row (squares s) m' \<Longrightarrow> m' = m" for m'
      using wf_one_line_owner [OF wf] calculation by blast
    ultimately show ?thesis using w by (cases m) (auto simp: status_eval)
  qed
qed

lemma winning_session:
  "session (1 / 4) [ClickSquare 0, ClickSquare 1, ClickSquare 3, ClickSquare 4, ClickSquare 6] = Inr won_state"
  by (simp add: game_eval)

theorem board_status_reachable_witness:
  "reachable won_state \<and> board_status won_state = ''Winner: X''"
proof -
  have r: "reachable won_state"
    by (rule session_reachable [OF _ _ _ winning_session]) simp_all
  have "three_in_a_row (emptyBoard[0 := Some MarkX, 1 := Some MarkO, 3 := Some MarkX, 4 := Some MarkO, 6 := Some MarkX]) MarkX"
    by (simp add: three_in_a_row_def cell_def emptyBoard_list ex_less_3_nat all_less_3_nat)
  then show ?thesis using board_status_reachable [OF r] r by simp
qed

end
